theory Spec2Isabelle
  imports Main "HOL-Library.AList"
begin

section \<open>The session-recording blob ingester (session-recordings-consumer-v2.ts)\<close>

text \<open>
  A shallow embedding of \<^verbatim>\<open>SessionRecordingIngesterV2\<close>. The class is a record of its
  fields (\<open>sessions\<close>, \<open>partitionAssignments\<close>, the high-water marker, whether a batch
  consumer is connected) extended by the logs of what it emitted (broker commits, dropped-event
  counter labels, flush calls, replay events). Every method takes the ingester and returns the
  updated one. Offsets, partitions, team ids and Kafka timestamps are natural numbers. Gauges,
  histograms, status logging, Sentry spans and the partition locker carry no state that a
  method of the class reads back, and are left out; of the two refreshers the environment
  keeps the token table and whether the watermark offsets can be had. An exception that
  leaves a method is a result of its own (\<open>Thrown\<close>, \<open>Raised\<close>, \<open>Failed\<close>), with the ingester as it
  was when the exception was raised. A method runs from its call to its return without
  another method of the class running in between, and the promises it starts together are
  taken in the order they are started.
\<close>

subsection \<open>JavaScript values the code relies on\<close>

text \<open>A number that may be \<^verbatim>\<open>Infinity\<close>, for \<^verbatim>\<open>x || Infinity\<close> and \<^verbatim>\<open>x ?? Infinity\<close>.\<close>

datatype js_number = Finite int | Infinity

fun js_less :: "js_number \<Rightarrow> js_number \<Rightarrow> bool" where
  "js_less (Finite a) (Finite b) = (a < b)"
| "js_less (Finite a) Infinity = True"
| "js_less Infinity b = False"

text \<open>\<^verbatim>\<open>v || Infinity\<close> for \<^verbatim>\<open>v: number | null | undefined\<close>: \<^verbatim>\<open>0\<close> is falsy too.\<close>

fun or_Infinity :: "nat option \<Rightarrow> js_number" where
  "or_Infinity None = Infinity"
| "or_Infinity (Some n) = (if n = 0 then Infinity else Finite (int n))"

text \<open>\<^verbatim>\<open>v ?? Infinity\<close>: only \<^verbatim>\<open>null\<close> and \<^verbatim>\<open>undefined\<close> are replaced.\<close>

fun nullish_Infinity :: "nat option \<Rightarrow> js_number" where
  "nullish_Infinity None = Infinity"
| "nullish_Infinity (Some n) = Finite (int n)"

text \<open>\<^verbatim>\<open>v || 0\<close> for an optional number.\<close>

fun or_zero :: "nat option \<Rightarrow> nat" where
  "or_zero None = 0"
| "or_zero (Some n) = n"

text \<open>Truthiness of an optional number (\<^verbatim>\<open>undefined\<close> and \<^verbatim>\<open>0\<close> are falsy) and of an
  optional string (\<^verbatim>\<open>undefined\<close> and the empty string are falsy).\<close>

fun truthy_number :: "nat option \<Rightarrow> bool" where
  "truthy_number None = False"
| "truthy_number (Some n) = (n \<noteq> 0)"

fun truthy_string :: "string option \<Rightarrow> bool" where
  "truthy_string None = False"
| "truthy_string (Some s) = (s \<noteq> [])"

text \<open>String conversion inside a template literal: a number in decimal, \<^verbatim>\<open>undefined\<close> as
  the text "undefined".\<close>

definition digit_chars :: string where
  "digit_chars = ''0123456789''"

fun string_of_nat :: "nat \<Rightarrow> string" where
  "string_of_nat n =
     (if n < 10 then [digit_chars ! n]
      else string_of_nat (n div 10) @ [digit_chars ! (n mod 10)])"

declare string_of_nat.simps [simp del]

fun js_string :: "string option \<Rightarrow> string" where
  "js_string None = ''undefined''"
| "js_string (Some s) = s"

text \<open>\<^verbatim>\<open>Array.prototype.sort(comparefn)\<close>, as a stable insertion sort driven by the sign of
  \<^verbatim>\<open>comparefn(x, y)\<close>: the element \<open>x\<close> being placed moves left past a placed element \<open>y\<close> only
  while \<^verbatim>\<open>comparefn(x, y) < 0\<close>. For a consistent comparator this is the sorted, stable order
  the language requires; for a comparator that never answers a negative number it leaves the
  array as it is, as the run detection of the engine's merge sort does.\<close>

fun sort_insert :: "('a \<Rightarrow> 'a \<Rightarrow> js_number) \<Rightarrow> 'a \<Rightarrow> 'a list \<Rightarrow> 'a list" where
  "sort_insert comparefn x [] = [x]"
| "sort_insert comparefn x (y # placed) =
     (if js_less (comparefn x y) (Finite 0) then y # sort_insert comparefn x placed
      else x # y # placed)"

text \<open>\<open>placed\<close> holds the already sorted prefix, last element first.\<close>

fun sort_from :: "('a \<Rightarrow> 'a \<Rightarrow> js_number) \<Rightarrow> 'a list \<Rightarrow> 'a list \<Rightarrow> 'a list" where
  "sort_from comparefn placed [] = rev placed"
| "sort_from comparefn placed (x # rest) = sort_from comparefn (sort_insert comparefn x placed) rest"

definition array_sort :: "('a \<Rightarrow> 'a \<Rightarrow> js_number) \<Rightarrow> 'a list \<Rightarrow> 'a list" where
  "array_sort comparefn xs = sort_from comparefn [] xs"

subsection \<open>Kafka messages and parsed recording messages\<close>

text \<open>\<^verbatim>\<open>Message\<close> of node-rdkafka: \<^verbatim>\<open>value: Buffer | null\<close>, \<^verbatim>\<open>timestamp?: number\<close>.\<close>

record message =
  msg_value :: "string option"
  msg_timestamp :: "nat option"
  msg_topic :: string
  msg_partition :: nat
  msg_offset :: nat

text \<open>\<^verbatim>\<open>RawEventMessage\<close> and \<^verbatim>\<open>PipelineEvent\<close> are declared outside the file; the fields are
  the ones \<^verbatim>\<open>parseKafkaMessage\<close> reads, optional where the code guards against their absence.
  The envelope's \<open>data\<close> is handed to \<^verbatim>\<open>JSON.parse\<close> unguarded, so the three values it
  tells apart are kept apart: a missing field, \<^verbatim>\<open>null\<close> and a string.\<close>

datatype data_field = Data_undefined | Data_null | Data string

record raw_event_message =
  rem_team_id :: "nat option"
  rem_token :: "string option"
  rem_distinct_id :: string
  rem_data :: data_field

record event_properties =
  snapshot_items :: "string list option"
  prop_session_id :: "string option"
  prop_window_id :: "string option"

record pipeline_event =
  pe_event :: "string option"
  pe_properties :: "event_properties option"

text \<open>What \<^verbatim>\<open>JSON.parse\<close> does with a text: it throws, it returns \<^verbatim>\<open>null\<close>, or it returns a
  value, read through the fields of the declared type (on a value that is no object every
  field reads as absent).\<close>

datatype 'a json = Json_throws | Json_null | Json 'a

record metadata =
  md_partition :: nat
  md_topic :: string
  md_offset :: nat
  md_timestamp :: nat

record incoming_recording_message =
  irm_metadata :: metadata
  team_id :: nat
  distinct_id :: string
  session_id :: "string option"
  window_id :: "string option"
  events :: "string list"

subsection \<open>Configuration and the world outside the ingester\<close>

text \<open>The configuration flag the class reads, and the two flush thresholds (age and byte
  size) the spec lists under the session-flush thresholds.\<close>

record config =
  SESSION_RECORDING_PARTITION_REVOKE_OPTIMIZATION :: bool
  SIZE_LIMIT :: nat
  AGE_LIMIT :: nat

text \<open>What the ingester is given from outside: \<^verbatim>\<open>JSON.parse\<close> on the message value and on the
  envelope's \<open>data\<close>, the token table of \<^verbatim>\<open>teamsRefresher.get()\<close> (loaded by \<^verbatim>\<open>start\<close> before
  any batch is handled), whether an object-store upload of a session succeeds, whether the
  downstream topic of the replay-events ingester is available, and whether
  \<^verbatim>\<open>offsetsRefresher.get()\<close> resolves. \<^verbatim>\<open>BackgroundRefresher\<close> is not among the sources; the loader
  the class hands it (lines 137-163) rejects when the consumer is not connected or the query
  of the watermark offsets fails, and with no earlier value to fall back on the rejection
  reaches the caller of \<^verbatim>\<open>get\<close>.\<close>

record environment =
  json_payload :: "string \<Rightarrow> raw_event_message json"
  json_event :: "string \<Rightarrow> pipeline_event json"
  teams :: "string \<Rightarrow> nat option"
  upload_succeeds :: "nat \<Rightarrow> string option \<Rightarrow> bool"
  downstream_available :: bool
  offsets_available :: bool

subsection \<open>OffsetHighWaterMarker\<close>

type_synonym topic_partition = "string \<times> nat"

type_synonym watermarks = "topic_partition \<Rightarrow> string \<Rightarrow> nat option"

definition HIGH_WATERMARK_KEY :: string where
  "HIGH_WATERMARK_KEY = ''session_replay_blob_ingester''"

text \<open>Modelled from the spec: the logical key of the replay-events ingester
  (services/replay-events-ingester is not among the sources). The spec only says it is distinct
  from the session ids and from the partition-global key.\<close>

definition REPLAY_EVENTS_KEY :: string where
  "REPLAY_EVENTS_KEY = ''session_replay_events_ingester''"

text \<open>Modelled from the spec: \<^verbatim>\<open>OffsetHighWaterMarker.isBelowHighWaterMark\<close>
  (services/offset-high-water-marker is not among the sources). Section 4.A: true iff the
  stored mark is at least the offset. The marks are those of the shared store, which the local
  cache writes through to and falls back on.\<close>

definition isBelowHighWaterMark :: "watermarks \<Rightarrow> metadata \<Rightarrow> string \<Rightarrow> nat \<Rightarrow> bool" where
  "isBelowHighWaterMark marks md key off =
     (case marks (md_topic md, md_partition md) key of
        None \<Rightarrow> False
      | Some mark \<Rightarrow> off \<le> mark)"

text \<open>Modelled from the spec: \<^verbatim>\<open>OffsetHighWaterMarker.add\<close> (not among the sources).
  Section 4.A: monotonically raise the mark.\<close>

definition hwm_add :: "watermarks \<Rightarrow> topic_partition \<Rightarrow> string \<Rightarrow> nat \<Rightarrow> watermarks" where
  "hwm_add marks tp key off =
     marks(tp := (marks tp)(key \<mapsto> (case marks tp key of None \<Rightarrow> off | Some mark \<Rightarrow> max mark off)))"

text \<open>Modelled from the spec: \<^verbatim>\<open>OffsetHighWaterMarker.clear\<close> (not among the sources).
  Section 4.A: discard the per-session marks whose values are at most the given offset; the
  marks under the two fixed keys are not per-session marks.\<close>

definition hwm_clear :: "watermarks \<Rightarrow> topic_partition \<Rightarrow> nat \<Rightarrow> watermarks" where
  "hwm_clear marks tp off =
     marks(tp := (\<lambda>key. case marks tp key of
                     None \<Rightarrow> None
                   | Some mark \<Rightarrow>
                       if key \<noteq> HIGH_WATERMARK_KEY \<and> key \<noteq> REPLAY_EVENTS_KEY \<and> mark \<le> off
                       then None else Some mark))"

text \<open>Modelled from the spec: \<^verbatim>\<open>OffsetHighWaterMarker.revoke\<close> (not among the sources).
  Section 4.A: the local state of the partition is forgotten and the shared store is left
  intact, so the marks a later read sees are the same.\<close>

definition hwm_revoke :: "watermarks \<Rightarrow> topic_partition \<Rightarrow> watermarks" where
  "hwm_revoke marks tp = marks"

subsection \<open>SessionBuffer and SessionManager\<close>

text \<open>Modelled from the spec: the buffer of a \<^verbatim>\<open>SessionManager\<close>
  (services/session-manager is not among the sources), with the fields of section 3 that the
  ingester or the flush protocol reads.\<close>

record session_buffer =
  oldestKafkaTimestamp :: "nat option"
  newestKafkaTimestamp :: "nat option"
  lowest_offset :: "nat option"
  highest_offset :: "nat option"
  byte_size :: nat
  event_count :: nat

definition empty_buffer :: session_buffer where
  "empty_buffer =
     \<lparr>oldestKafkaTimestamp = None, newestKafkaTimestamp = None, lowest_offset = None,
      highest_offset = None, byte_size = 0, event_count = 0\<rparr>"

text \<open>Modelled from the spec: \<^verbatim>\<open>SessionBuffer.append\<close> (not among the sources). One message
  is appended with its offset and timestamp; its size is that of its serialized snapshot
  items.\<close>

definition buffer_append :: "session_buffer \<Rightarrow> incoming_recording_message \<Rightarrow> session_buffer" where
  "buffer_append b ev =
     (let off = md_offset (irm_metadata ev); ts = md_timestamp (irm_metadata ev) in
      \<lparr>oldestKafkaTimestamp =
         Some (case oldestKafkaTimestamp b of None \<Rightarrow> ts | Some t \<Rightarrow> min t ts),
       newestKafkaTimestamp =
         Some (case newestKafkaTimestamp b of None \<Rightarrow> ts | Some t \<Rightarrow> max t ts),
       lowest_offset = Some (case lowest_offset b of None \<Rightarrow> off | Some l \<Rightarrow> min l off),
       highest_offset = Some (case highest_offset b of None \<Rightarrow> off | Some h \<Rightarrow> max h off),
       byte_size = byte_size b + sum_list (map length (events ev)),
       event_count = event_count b + 1\<rparr>)"

text \<open>The fields of \<^verbatim>\<open>SessionManager\<close> the ingester reads: \<open>partition\<close>, \<open>topic\<close>,
  \<open>sessionId\<close>, \<open>buffer\<close>; \<open>teamId\<close> is the constructor's argument.\<close>

record session_manager =
  teamId :: nat
  sessionId :: "string option"
  sm_partition :: nat
  sm_topic :: string
  buffer :: session_buffer

text \<open>Modelled from the spec: the constructor
  \<^verbatim>\<open>new SessionManager(..., team_id, session_id, partition, topic)\<close> (not among the sources).
  Section 3: a manager is created on the first message of its key, with an empty buffer.\<close>

definition new_SessionManager :: "nat \<Rightarrow> string option \<Rightarrow> nat \<Rightarrow> string \<Rightarrow> session_manager" where
  "new_SessionManager team sid p t =
     \<lparr>teamId = team, sessionId = sid, sm_partition = p, sm_topic = t, buffer = empty_buffer\<rparr>"

text \<open>Modelled from the spec: \<^verbatim>\<open>SessionManager.isEmpty\<close> (not among the sources): the
  buffer holds no event.\<close>

definition isEmpty :: "session_manager \<Rightarrow> bool" where
  "isEmpty sm = (event_count (buffer sm) = 0)"

text \<open>Modelled from the spec: \<^verbatim>\<open>SessionManager.getLowestOffset\<close> (not among the sources).
  Section 4.F: the lowest un-flushed offset, or null if empty.\<close>

definition getLowestOffset :: "session_manager \<Rightarrow> nat option" where
  "getLowestOffset sm = (if isEmpty sm then None else lowest_offset (buffer sm))"

datatype flush_reason = buffer_size | buffer_age | partition_shutdown | process_stop

text \<open>What a session manager reaches outside itself: the high-water marks, and the log of
  the flush calls made so far (team, session, reason), in the order they were initiated.\<close>

type_synonym flush_call = "nat \<times> string option \<times> flush_reason"

type_synonym sm_world = "watermarks \<times> flush_call list"

text \<open>Modelled from the spec: \<^verbatim>\<open>SessionManager.flush\<close> (not among the sources). Section
  4.F: a flush of an empty buffer is a no-op; after a successful upload the mark of the
  session and then the partition-global mark are advanced to the highest flushed offset and
  the buffer is reset; after a failed upload the buffer is left intact and no mark moves.\<close>

definition flush :: "environment \<Rightarrow> flush_reason \<Rightarrow> session_manager \<Rightarrow> sm_world \<Rightarrow> session_manager \<times> sm_world" where
  "flush env reason sm w =
     (let marks = fst w; calls = snd w @ [(teamId sm, sessionId sm, reason)];
          tp = (sm_topic sm, sm_partition sm) in
      if isEmpty sm then (sm, (marks, calls))
      else if upload_succeeds env (teamId sm) (sessionId sm) then
        (case highest_offset (buffer sm) of
           None \<Rightarrow> (sm\<lparr>buffer := empty_buffer\<rparr>, (marks, calls))
         | Some h \<Rightarrow>
             (sm\<lparr>buffer := empty_buffer\<rparr>,
              (hwm_add (hwm_add marks tp (js_string (sessionId sm)) h) tp HIGH_WATERMARK_KEY h,
               calls)))
      else (sm, (marks, calls)))"

text \<open>Modelled from the spec: \<^verbatim>\<open>SessionManager.add\<close> (not among the sources). Section 4.F:
  delegates to the buffer and kicks off a flush when the size limit is exceeded.\<close>

definition sm_add :: "config \<Rightarrow> environment \<Rightarrow> incoming_recording_message \<Rightarrow> session_manager \<Rightarrow> sm_world \<Rightarrow> session_manager \<times> sm_world" where
  "sm_add cfg env ev sm w =
     (let sm1 = sm\<lparr>buffer := buffer_append (buffer sm) ev\<rparr> in
      if SIZE_LIMIT cfg \<le> byte_size (buffer sm1) then flush env buffer_size sm1 w
      else (sm1, w))"

text \<open>Modelled from the spec: the age test of \<^verbatim>\<open>SessionManager.flushIfSessionBufferIsOld\<close>
  (not among the sources). Section 4.F: the reference time minus the oldest timestamp of the
  buffer is at least the age limit.\<close>

definition buffer_is_old :: "config \<Rightarrow> nat \<Rightarrow> session_manager \<Rightarrow> bool" where
  "buffer_is_old cfg referenceTime sm =
     (case oldestKafkaTimestamp (buffer sm) of
        None \<Rightarrow> False
      | Some t \<Rightarrow> int (AGE_LIMIT cfg) \<le> int referenceTime - int t)"

text \<open>Modelled from the spec: \<^verbatim>\<open>SessionManager.flushIfSessionBufferIsOld\<close> (not among the
  sources). Section 4.F: flush if the buffer is old at the reference time, or its byte size is
  at least the size limit.\<close>

definition flushIfSessionBufferIsOld :: "config \<Rightarrow> environment \<Rightarrow> nat \<Rightarrow> session_manager \<Rightarrow> sm_world \<Rightarrow> session_manager \<times> sm_world" where
  "flushIfSessionBufferIsOld cfg env referenceTime sm w =
     (if buffer_is_old cfg referenceTime sm then flush env buffer_age sm w
      else if SIZE_LIMIT cfg \<le> byte_size (buffer sm) then flush env buffer_size sm w
      else (sm, w))"

subsection \<open>The ingester\<close>

record partition_metrics =
  lastMessageTimestamp :: "nat option"
  lastMessageOffset :: "nat option"
  lastKnownCommit :: "nat option"

definition no_metrics :: partition_metrics where
  "no_metrics = \<lparr>lastMessageTimestamp = None, lastMessageOffset = None, lastKnownCommit = None\<rparr>"

text \<open>\<open>sessions\<close> is a JavaScript object used as a dictionary: an association list in insertion
  order (the keys contain a dash, so none is an array index). \<open>commits\<close> are the calls of
  \<^verbatim>\<open>consumer.commit\<close> (topic, partition, offset), \<open>eventDroppedCounter\<close> the \<open>drop_cause\<close> labels
  it was incremented with, \<open>replayEvents\<close> what the replay-events ingester published (team,
  session, offset).\<close>

record ingester =
  sessions :: "(string \<times> session_manager) list"
  partitionAssignments :: "nat \<Rightarrow> partition_metrics option"
  offsetHighWaterMarker :: watermarks
  batchConsumer :: bool
  commits :: "(string \<times> nat \<times> nat) list"
  eventDroppedCounter :: "string list"
  flushCalls :: "flush_call list"
  replayEvents :: "(nat \<times> string option \<times> nat) list"

definition sm_world_of :: "ingester \<Rightarrow> sm_world" where
  "sm_world_of s = (offsetHighWaterMarker s, flushCalls s)"

definition with_sm_world :: "sm_world \<Rightarrow> ingester \<Rightarrow> ingester" where
  "with_sm_world w s = s\<lparr>offsetHighWaterMarker := fst w, flushCalls := snd w\<rparr>"

text \<open>The dictionary key of \<^verbatim>\<open>consume\<close>: the template \<^verbatim>\<open>`${team_id}-${session_id}`\<close>.\<close>

definition session_key :: "nat \<Rightarrow> string option \<Rightarrow> string" where
  "session_key team sid = string_of_nat team @ ''-'' @ js_string sid"

text \<open>\<^verbatim>\<open>consume\<close> (lines 172-232).\<close>

definition consume :: "config \<Rightarrow> environment \<Rightarrow> incoming_recording_message \<Rightarrow> ingester \<Rightarrow> ingester" where
  "consume cfg env event s =
     (let key = session_key (team_id event) (session_id event);
          off = md_offset (irm_metadata event) in
      if isBelowHighWaterMark (offsetHighWaterMarker s) (irm_metadata event)
           (js_string (session_id event)) off
      then s\<lparr>eventDroppedCounter := eventDroppedCounter s @ [''high_water_mark'']\<rparr>
      else if isBelowHighWaterMark (offsetHighWaterMarker s) (irm_metadata event)
           HIGH_WATERMARK_KEY off
      then s\<lparr>eventDroppedCounter := eventDroppedCounter s @ [''high_water_mark_partition'']\<rparr>
      else
        (let s1 =
           (case map_of (sessions s) key of
              None \<Rightarrow>
                s\<lparr>sessions := AList.update key
                     (new_SessionManager (team_id event) (session_id event)
                        (md_partition (irm_metadata event)) (md_topic (irm_metadata event)))
                     (sessions s)\<rparr>
            | Some sm \<Rightarrow> s)
         in case map_of (sessions s1) key of
              None \<Rightarrow> s1
            | Some sm \<Rightarrow>
                (let r = sm_add cfg env event sm (sm_world_of s1) in
                 with_sm_world (snd r) (s1\<lparr>sessions := AList.update key (fst r) (sessions s1)\<rparr>))))"

text \<open>\<^verbatim>\<open>parseKafkaMessage\<close> (lines 234-309) ends in one of three ways: it returns a message,
  it returns nothing after a warning (\<open>Dropped\<close>, with the reason it warned with), or it
  throws. \<open>warning\<close> is the text of the warning: the reason handed to \<^verbatim>\<open>statusWarn\<close>, or the
  plain warning of the non-snapshot return at line 263.\<close>

datatype invalid_message =
  value_or_timestamp_empty | invalid_json | non_snapshot_message | no_token
  | team_missing_or_disabled

fun warning :: "invalid_message \<Rightarrow> string" where
  "warning value_or_timestamp_empty = ''message value or timestamp is empty''"
| "warning invalid_json = ''invalid_json''"
| "warning non_snapshot_message = ''Received non-snapshot message, ignoring''"
| "warning no_token = ''no_token''"
| "warning team_missing_or_disabled = ''team_missing_or_disabled''"

text \<open>What a method of the class may throw: the \<^verbatim>\<open>TypeError\<close> of a property read on \<^verbatim>\<open>null\<close>,
  and the rejection of \<^verbatim>\<open>offsetsRefresher.get()\<close>.\<close>

datatype failure = TypeError | OffsetsUnavailable

datatype parse_outcome =
  Thrown failure | Dropped invalid_message | Parsed incoming_recording_message

text \<open>\<^verbatim>\<open>!event.properties?.$snapshot_items?.length\<close>.\<close>

fun no_snapshot_items :: "event_properties option \<Rightarrow> bool" where
  "no_snapshot_items None = True"
| "no_snapshot_items (Some props) =
     (case snapshot_items props of None \<Rightarrow> True | Some items \<Rightarrow> length items = 0)"

text \<open>\<^verbatim>\<open>JSON.parse(messagePayload.data)\<close>: the argument is converted to a string first, so a
  missing field is the text \<^verbatim>\<open>undefined\<close>, which is no JSON, and \<^verbatim>\<open>null\<close> is the text \<^verbatim>\<open>null\<close>,
  which parses to \<^verbatim>\<open>null\<close>.\<close>

fun parse_data :: "environment \<Rightarrow> data_field \<Rightarrow> pipeline_event json" where
  "parse_data env Data_undefined = Json_throws"
| "parse_data env Data_null = Json_null"
| "parse_data env (Data d) = json_event env d"

text \<open>The \<^verbatim>\<open>try\<close> of lines 255-260 catches what the two \<^verbatim>\<open>JSON.parse\<close> calls throw, and the
  \<^verbatim>\<open>TypeError\<close> of \<^verbatim>\<open>messagePayload.data\<close> when the value parses to \<^verbatim>\<open>null\<close>. The read of
  \<^verbatim>\<open>event.event\<close> at line 262 is outside it: when the data parses to \<^verbatim>\<open>null\<close> it throws.\<close>

definition parseKafkaMessage :: "environment \<Rightarrow> message \<Rightarrow> (string \<Rightarrow> nat option) \<Rightarrow> parse_outcome" where
  "parseKafkaMessage env message getTeamFn =
     (case msg_value message of
        None \<Rightarrow> Dropped value_or_timestamp_empty
      | Some v \<Rightarrow>
          if \<not> truthy_number (msg_timestamp message) then Dropped value_or_timestamp_empty
          else
            (case json_payload env v of
               Json_throws \<Rightarrow> Dropped invalid_json
             | Json_null \<Rightarrow> Dropped invalid_json
             | Json messagePayload \<Rightarrow>
                 (case parse_data env (rem_data messagePayload) of
                    Json_throws \<Rightarrow> Dropped invalid_json
                  | Json_null \<Rightarrow> Thrown TypeError
                  | Json event \<Rightarrow>
                      if pe_event event \<noteq> Some ''$snapshot_items''
                         \<or> no_snapshot_items (pe_properties event)
                      then Dropped non_snapshot_message
                      else if rem_team_id messagePayload = None
                              \<and> \<not> truthy_string (rem_token messagePayload)
                      then Dropped no_token
                      else
                        (case (if truthy_string (rem_token messagePayload)
                               then getTeamFn (the (rem_token messagePayload))
                               else None) of
                           None \<Rightarrow> Dropped team_missing_or_disabled
                         | Some resolved \<Rightarrow>
                             Parsed \<lparr>irm_metadata =
                                    \<lparr>md_partition = msg_partition message,
                                     md_topic = msg_topic message,
                                     md_offset = msg_offset message,
                                     md_timestamp = the (msg_timestamp message)\<rparr>,
                                  team_id = resolved,
                                  distinct_id = rem_distinct_id messagePayload,
                                  session_id =
                                    (case pe_properties event of
                                       None \<Rightarrow> None
                                     | Some props \<Rightarrow> prop_session_id props),
                                  window_id =
                                    (case pe_properties event of
                                       None \<Rightarrow> None
                                     | Some props \<Rightarrow> prop_window_id props),
                                  events =
                                    (case pe_properties event of
                                       None \<Rightarrow> []
                                     | Some props \<Rightarrow>
                                         (case snapshot_items props of
                                            None \<Rightarrow> []
                                          | Some items \<Rightarrow> items))\<rparr>))))"

text \<open>The team lookup \<^verbatim>\<open>handleEachBatch\<close> passes to the parser:
  \<^verbatim>\<open>teams[token] || null\<close>, where a team id of \<^verbatim>\<open>0\<close> is falsy.\<close>

definition getTeamFn :: "environment \<Rightarrow> string \<Rightarrow> nat option" where
  "getTeamFn env token =
     (case teams env token of None \<Rightarrow> None | Some t \<Rightarrow> if t = 0 then None else Some t)"

text \<open>\<^verbatim>\<open>commitOffset\<close> (lines 624-675). \<open>blockingSession\<close> is its loop over
  \<^verbatim>\<open>Object.values(this.sessions)\<close>, with \<open>potentiallyBlockingSession\<close> as the accumulator.\<close>

fun blockingSession :: "string \<Rightarrow> nat \<Rightarrow> session_manager list \<Rightarrow> session_manager option \<Rightarrow> session_manager option" where
  "blockingSession topic p [] potentiallyBlockingSession = potentiallyBlockingSession"
| "blockingSession topic p (sessionManager # rest) potentiallyBlockingSession =
     (if sm_partition sessionManager = p \<and> sm_topic sessionManager = topic then
        (case getLowestOffset sessionManager of
           None \<Rightarrow> blockingSession topic p rest potentiallyBlockingSession
         | Some lowestOffset \<Rightarrow>
             if js_less (Finite (int lowestOffset))
                  (or_Infinity (case potentiallyBlockingSession of
                                  None \<Rightarrow> None
                                | Some b \<Rightarrow> getLowestOffset b))
             then blockingSession topic p rest (Some sessionManager)
             else blockingSession topic p rest potentiallyBlockingSession)
      else blockingSession topic p rest potentiallyBlockingSession)"

definition potentiallyBlockingOffset :: "string \<Rightarrow> nat \<Rightarrow> ingester \<Rightarrow> nat option" where
  "potentiallyBlockingOffset topic p s =
     (case blockingSession topic p (map snd (sessions s)) None of
        None \<Rightarrow> None
      | Some b \<Rightarrow> getLowestOffset b)"

definition highestOffsetToCommit :: "string \<Rightarrow> nat \<Rightarrow> nat \<Rightarrow> ingester \<Rightarrow> nat" where
  "highestOffsetToCommit topic p off s =
     (case potentiallyBlockingOffset topic p s of
        None \<Rightarrow> off
      | Some b \<Rightarrow> if b < off then b else off)"

text \<open>\<^verbatim>\<open>this.partitionAssignments[partition]?.lastKnownCommit || 0\<close>.\<close>

definition lastKnownCommit_or_0 :: "ingester \<Rightarrow> nat \<Rightarrow> nat" where
  "lastKnownCommit_or_0 s p =
     (case partitionAssignments s p of None \<Rightarrow> 0 | Some metrics \<Rightarrow> or_zero (lastKnownCommit metrics))"

definition commitOffset :: "string \<Rightarrow> nat \<Rightarrow> nat \<Rightarrow> ingester \<Rightarrow> ingester" where
  "commitOffset topic p off s =
     (let h = highestOffsetToCommit topic p off s in
      if h \<le> lastKnownCommit_or_0 s p then s
      else
        s\<lparr>partitionAssignments :=
             (case partitionAssignments s p of
                None \<Rightarrow> partitionAssignments s
              | Some metrics \<Rightarrow> (partitionAssignments s)(p \<mapsto> metrics\<lparr>lastKnownCommit := Some h\<rparr>)),
           commits := (if batchConsumer s then commits s @ [(topic, p, h + 1)] else commits s),
           offsetHighWaterMarker :=
             hwm_clear (hwm_add (offsetHighWaterMarker s) (topic, p) HIGH_WATERMARK_KEY h)
               (topic, p) h\<rparr>)"

text \<open>\<^verbatim>\<open>destroySessions\<close> (lines 677-686): the keys are deleted from the dictionary.\<close>

fun destroySessions :: "(string \<times> session_manager) list \<Rightarrow> ingester \<Rightarrow> ingester" where
  "destroySessions [] s = s"
| "destroySessions ((key, sessionManager) # rest) s =
     destroySessions rest (s\<lparr>sessions := AList.delete key (sessions s)\<rparr>)"

text \<open>How a batch ends: completed, or failed with the ingester as it was when the error was
  raised.\<close>

datatype batch_result = Completed ingester | Failed ingester

text \<open>Modelled from the spec: \<^verbatim>\<open>ReplayEventsIngester.consumeBatch\<close>
  (services/replay-events-ingester is not among the sources). Section 4.G: for each parsed
  message a replay record is published downstream, gated by the high-water marker under a
  logical key of its own, which also takes the acknowledgment; when the downstream is
  unavailable the whole batch fails.\<close>

fun consumeBatch :: "environment \<Rightarrow> incoming_recording_message list \<Rightarrow> ingester \<Rightarrow> batch_result" where
  "consumeBatch env [] s = Completed s"
| "consumeBatch env (event # rest) s =
     (if isBelowHighWaterMark (offsetHighWaterMarker s) (irm_metadata event) REPLAY_EVENTS_KEY
           (md_offset (irm_metadata event))
      then consumeBatch env rest s
      else if downstream_available env then
        consumeBatch env rest
          (s\<lparr>replayEvents :=
                replayEvents s @ [(team_id event, session_id event, md_offset (irm_metadata event))],
              offsetHighWaterMarker :=
                hwm_add (offsetHighWaterMarker s)
                  (md_topic (irm_metadata event), md_partition (irm_metadata event))
                  REPLAY_EVENTS_KEY (md_offset (irm_metadata event))\<rparr>)
      else Failed s)"

text \<open>\<^verbatim>\<open>flushAllReadySessions\<close> (lines 578-619): the loop over the entries the dictionary had
  when the method was called. A flush changes the session manager in place; the \<^verbatim>\<open>finally\<close>
  handler destroys a manager that is empty afterwards. The flushes are taken one after the
  other, in the order they are started.\<close>

fun flushReady :: "config \<Rightarrow> environment \<Rightarrow> (string \<times> session_manager) list \<Rightarrow> ingester \<Rightarrow> ingester" where
  "flushReady cfg env [] s = s"
| "flushReady cfg env ((key, sessionManager) # rest) s =
     (case partitionAssignments s (sm_partition sessionManager) of
        None \<Rightarrow> flushReady cfg env rest s
      | Some metrics \<Rightarrow>
          if \<not> truthy_number (lastMessageTimestamp metrics) then flushReady cfg env rest s
          else
            (let r = flushIfSessionBufferIsOld cfg env (or_zero (lastMessageTimestamp metrics))
                       sessionManager (sm_world_of s);
                 s1 = with_sm_world (snd r) (s\<lparr>sessions := AList.update key (fst r) (sessions s)\<rparr>)
             in flushReady cfg env rest
                  (if isEmpty (fst r) then destroySessions [(key, fst r)] s1 else s1)))"

definition flushAllReadySessions :: "config \<Rightarrow> environment \<Rightarrow> ingester \<Rightarrow> ingester" where
  "flushAllReadySessions cfg env s = flushReady cfg env (sessions s) s"

text \<open>\<^verbatim>\<open>handleEachBatch\<close> (lines 311-386). \<open>updateMetrics\<close> is the body of the guard at lines
  327-351 up to the call of \<^verbatim>\<open>offsetsRefresher.get()\<close>; \<open>parseMessages\<close> the first loop, which
  also carries the increment of the dropped counter that \<^verbatim>\<open>parseKafkaMessage\<close> makes when the
  team is missing; \<open>consumeAll\<close> the second loop and \<open>commitAll\<close> the third. The first loop
  stops at the first exception, with the metrics updated so far: a rejected
  \<^verbatim>\<open>offsetsRefresher.get()\<close> inside the guard, or what \<^verbatim>\<open>parseKafkaMessage\<close> throws. The
  exception leaves \<^verbatim>\<open>handleEachBatch\<close> before the second loop.\<close>

definition updateMetrics :: "message \<Rightarrow> ingester \<Rightarrow> ingester" where
  "updateMetrics message s =
     (case partitionAssignments s (msg_partition message) of
        None \<Rightarrow> s
      | Some metrics \<Rightarrow>
          if truthy_number (msg_timestamp message) then
            s\<lparr>partitionAssignments := (partitionAssignments s)(msg_partition message \<mapsto>
                 metrics\<lparr>lastMessageTimestamp := msg_timestamp message,
                         lastKnownCommit :=
                           Some (case lastKnownCommit metrics of
                                   None \<Rightarrow> msg_offset message
                                 | Some l \<Rightarrow> l),
                         lastMessageOffset := Some (msg_offset message)\<rparr>)\<rparr>
          else s)"

datatype first_loop =
  All_parsed "incoming_recording_message list" ingester | Raised failure ingester

fun loop_state :: "first_loop \<Rightarrow> ingester" where
  "loop_state (All_parsed recordingMessages s) = s"
| "loop_state (Raised f s) = s"

fun push_front :: "incoming_recording_message \<Rightarrow> first_loop \<Rightarrow> first_loop" where
  "push_front recordingMessage (All_parsed recordingMessages s) =
     All_parsed (recordingMessage # recordingMessages) s"
| "push_front recordingMessage (Raised f s) = Raised f s"

fun parseMessages :: "environment \<Rightarrow> message list \<Rightarrow> ingester \<Rightarrow> first_loop" where
  "parseMessages env [] s = All_parsed [] s"
| "parseMessages env (message # rest) s =
     (let s1 = updateMetrics message s in
      if truthy_number (msg_timestamp message)
         \<and> partitionAssignments s (msg_partition message) \<noteq> None
         \<and> \<not> offsets_available env
      then Raised OffsetsUnavailable s1
      else
        case parseKafkaMessage env message (getTeamFn env) of
          Thrown f \<Rightarrow> Raised f s1
        | Dropped reason \<Rightarrow>
            parseMessages env rest
              (if reason = team_missing_or_disabled
               then s1\<lparr>eventDroppedCounter := eventDroppedCounter s1 @ [''team_missing_or_disabled'']\<rparr>
               else s1)
        | Parsed recordingMessage \<Rightarrow> push_front recordingMessage (parseMessages env rest s1))"

fun consumeAll :: "config \<Rightarrow> environment \<Rightarrow> incoming_recording_message list \<Rightarrow> ingester \<Rightarrow> ingester" where
  "consumeAll cfg env [] s = s"
| "consumeAll cfg env (message # rest) s = consumeAll cfg env rest (consume cfg env message s)"

fun commitAll :: "message list \<Rightarrow> ingester \<Rightarrow> ingester" where
  "commitAll [] s = s"
| "commitAll (message # rest) s =
     commitAll rest (commitOffset (msg_topic message) (msg_partition message) (msg_offset message) s)"

definition handleEachBatch :: "config \<Rightarrow> environment \<Rightarrow> message list \<Rightarrow> ingester \<Rightarrow> batch_result" where
  "handleEachBatch cfg env messages s =
     (case parseMessages env messages s of
        Raised f s1 \<Rightarrow> Failed s1
      | All_parsed recordingMessages s1 \<Rightarrow>
          (let s2 = consumeAll cfg env recordingMessages s1;
               s3 = commitAll messages s2
           in case consumeBatch env recordingMessages s3 of
                Failed s4 \<Rightarrow> Failed s4
              | Completed s4 \<Rightarrow> Completed (flushAllReadySessions cfg env s4)))"

text \<open>\<^verbatim>\<open>onAssignPartitions\<close> (lines 519-526).\<close>

fun onAssignPartitions :: "topic_partition list \<Rightarrow> ingester \<Rightarrow> ingester" where
  "onAssignPartitions [] s = s"
| "onAssignPartitions (topicPartition # rest) s =
     onAssignPartitions rest
       (s\<lparr>partitionAssignments := (partitionAssignments s)(snd topicPartition \<mapsto> no_metrics)\<rparr>)"

text \<open>\<^verbatim>\<open>onRevokePartitions\<close> (lines 528-576). \<open>flushAll\<close> starts the flushes in the order of the
  list it is given; \<open>dropPartitions\<close> is the \<^verbatim>\<open>forEach\<close> at lines 560-569. The managers that
  are flushed are the ones \<open>destroySessions\<close> then deletes from the dictionary, so what a flush
  does to their buffers is not written back to it; its marks and the log of flush calls are.\<close>

fun flushAll :: "environment \<Rightarrow> flush_reason \<Rightarrow> session_manager list \<Rightarrow> sm_world \<Rightarrow> sm_world" where
  "flushAll env reason [] w = w"
| "flushAll env reason (x # rest) w = flushAll env reason rest (snd (flush env reason x w))"

fun dropPartitions :: "topic_partition list \<Rightarrow> ingester \<Rightarrow> ingester" where
  "dropPartitions [] s = s"
| "dropPartitions (topicPartition # rest) s =
     dropPartitions rest
       (s\<lparr>partitionAssignments := (partitionAssignments s)(snd topicPartition := None),
          offsetHighWaterMarker := hwm_revoke (offsetHighWaterMarker s) topicPartition\<rparr>)"

definition sessionsToDrop :: "topic_partition list \<Rightarrow> ingester \<Rightarrow> (string \<times> session_manager) list" where
  "sessionsToDrop topicPartitions s =
     filter (\<lambda>entry. sm_partition (snd entry) \<in> set (map snd topicPartitions)) (sessions s)"

text \<open>The comparator handed to \<^verbatim>\<open>sort\<close> at line 555: it takes its first argument only.\<close>

definition revoke_comparefn :: "session_manager \<Rightarrow> session_manager \<Rightarrow> js_number" where
  "revoke_comparefn x y = nullish_Infinity (oldestKafkaTimestamp (buffer x))"

definition onRevokePartitions :: "config \<Rightarrow> environment \<Rightarrow> topic_partition list \<Rightarrow> ingester \<Rightarrow> ingester" where
  "onRevokePartitions cfg env topicPartitions s =
     (if map snd topicPartitions = [] then s
      else
        (let dropped = sessionsToDrop topicPartitions s;
             s1 = (if SESSION_RECORDING_PARTITION_REVOKE_OPTIMIZATION cfg
                   then with_sm_world
                          (flushAll env partition_shutdown
                             (array_sort revoke_comparefn (map snd dropped)) (sm_world_of s)) s
                   else s)
         in destroySessions dropped (dropPartitions topicPartitions s1)))"

subsection \<open>Histories of calls, and predicates of the statements\<close>

text \<open>The ingester a failed batch leaves behind is the one it had reached.\<close>

fun result_state :: "batch_result \<Rightarrow> ingester" where
  "result_state (Completed s) = s"
| "result_state (Failed s) = s"

text \<open>A history of calls made to the ingester while its partitions stay assigned: batches
  handed over by the batch consumer (each with the outside world of its moment) and direct
  calls of \<open>commitOffset\<close>.\<close>

datatype call = HandleEachBatch environment "message list" | CommitOffset string nat nat

fun run_calls :: "config \<Rightarrow> call list \<Rightarrow> ingester \<Rightarrow> ingester" where
  "run_calls cfg [] s = s"
| "run_calls cfg (HandleEachBatch env messages # rest) s =
     run_calls cfg rest (result_state (handleEachBatch cfg env messages s))"
| "run_calls cfg (CommitOffset topic p off # rest) s =
     run_calls cfg rest (commitOffset topic p off s)"

text \<open>The offsets committed to the broker for a partition, in the order they were issued.\<close>

definition committed_on :: "nat \<Rightarrow> (string \<times> nat \<times> nat) list \<Rightarrow> nat list" where
  "committed_on p cs = map (\<lambda>c. snd (snd c)) (filter (\<lambda>c. fst (snd c) = p) cs)"

text \<open>From \<open>s\<close> to \<open>s'\<close> the partition stays assigned, its last known commit does not
  fall, and the commits issued for it in between are strictly increasing, each one above the
  last known commit of \<open>s\<close> plus one and at most that of \<open>s'\<close> plus one.\<close>

definition advances :: "nat \<Rightarrow> ingester \<Rightarrow> ingester \<Rightarrow> bool" where
  "advances p s s' \<longleftrightarrow>
     partitionAssignments s' p \<noteq> None
     \<and> lastKnownCommit_or_0 s p \<le> lastKnownCommit_or_0 s' p
     \<and> (\<exists>cs. commits s' = commits s @ cs
             \<and> sorted_wrt (<) (committed_on p cs)
             \<and> (\<forall>c \<in> set (committed_on p cs).
                   lastKnownCommit_or_0 s p + 1 < c \<and> c \<le> lastKnownCommit_or_0 s' p + 1))"

text \<open>The partition-global mark of a topic-partition is stored and at least \<open>c\<close>.\<close>

definition global_mark_at_least :: "watermarks \<Rightarrow> topic_partition \<Rightarrow> nat \<Rightarrow> bool" where
  "global_mark_at_least marks tp c =
     (case marks tp HIGH_WATERMARK_KEY of None \<Rightarrow> False | Some mark \<Rightarrow> c \<le> mark)"

text \<open>A session manager that \<open>flushAllReadySessions\<close> leaves alone: its partition has no
  reference time, or its buffer is neither old at that reference time nor at the size limit,
  and is not empty.\<close>

definition session_idle :: "config \<Rightarrow> ingester \<Rightarrow> session_manager \<Rightarrow> bool" where
  "session_idle cfg s sm =
     (case partitionAssignments s (sm_partition sm) of
        None \<Rightarrow> True
      | Some metrics \<Rightarrow>
          \<not> truthy_number (lastMessageTimestamp metrics)
          \<or> (\<not> buffer_is_old cfg (or_zero (lastMessageTimestamp metrics)) sm
              \<and> byte_size (buffer sm) < SIZE_LIMIT cfg \<and> \<not> isEmpty sm))"

text \<open>The reference time \<open>flushAllReadySessions\<close> reads for a session manager: the last
  message timestamp of its partition, when the partition is assigned and the timestamp is
  truthy.\<close>

definition reference_time :: "ingester \<Rightarrow> session_manager \<Rightarrow> nat option" where
  "reference_time s sm =
     (case partitionAssignments s (sm_partition sm) of
        None \<Rightarrow> None
      | Some metrics \<Rightarrow>
          if truthy_number (lastMessageTimestamp metrics) then lastMessageTimestamp metrics
          else None)"

text \<open>A session manager whose buffer \<open>flushAllReadySessions\<close> uploads: its partition has a
  reference time, the buffer is old at that time or at the size limit, it is not empty, and
  the upload succeeds.\<close>

definition session_uploaded :: "config \<Rightarrow> environment \<Rightarrow> ingester \<Rightarrow> session_manager \<Rightarrow> bool" where
  "session_uploaded cfg env s sm =
     (case reference_time s sm of
        None \<Rightarrow> False
      | Some t \<Rightarrow>
          (buffer_is_old cfg t sm \<or> SIZE_LIMIT cfg \<le> byte_size (buffer sm))
          \<and> \<not> isEmpty sm \<and> upload_succeeds env (teamId sm) (sessionId sm))"

text \<open>A session manager that \<open>flushAllReadySessions\<close> removes from the dictionary: its partition
  has a reference time, and it is empty or its buffer is uploaded.\<close>

definition session_removed :: "config \<Rightarrow> environment \<Rightarrow> ingester \<Rightarrow> session_manager \<Rightarrow> bool" where
  "session_removed cfg env s sm =
     (reference_time s sm \<noteq> None \<and> (isEmpty sm \<or> session_uploaded cfg env s sm))"

text \<open>The mark stored under a key of a topic-partition is at least \<open>c\<close>.\<close>

definition mark_at_least :: "watermarks \<Rightarrow> topic_partition \<Rightarrow> string \<Rightarrow> nat \<Rightarrow> bool" where
  "mark_at_least marks tp key c =
     (case marks tp key of None \<Rightarrow> False | Some mark \<Rightarrow> c \<le> mark)"

text \<open>The body of the loop of \<open>flushAllReadySessions\<close>, for one entry of the dictionary.\<close>

definition flushEntry :: "config \<Rightarrow> environment \<Rightarrow> string \<Rightarrow> session_manager \<Rightarrow> ingester \<Rightarrow> ingester" where
  "flushEntry cfg env key sessionManager s = flushReady cfg env [(key, sessionManager)] s"

subsection \<open>Example inputs\<close>

text \<open>A configuration with a size limit of 100 bytes and an age limit of 60 seconds, an
  environment whose parser knows a few payloads and whose token table knows one token, and
  the ingester states and messages the examples below are run on.\<close>

definition example_cfg :: config where
  "example_cfg = \<lparr>SESSION_RECORDING_PARTITION_REVOKE_OPTIMIZATION = True, SIZE_LIMIT = 100, AGE_LIMIT = 60000\<rparr>"

definition example_env :: environment where
  "example_env =
     \<lparr>json_payload = (\<lambda>v.
        if v = ''envelope a'' then
          Json \<lparr>rem_team_id = None, rem_token = Some ''phc_token'', rem_distinct_id = ''user'',
                rem_data = Data ''snapshot a''\<rparr>
        else if v = ''envelope b'' then
          Json \<lparr>rem_team_id = None, rem_token = Some ''phc_token'', rem_distinct_id = ''user'',
                rem_data = Data ''snapshot b''\<rparr>
        else if v = ''envelope with team_id only'' then
          Json \<lparr>rem_team_id = Some 7, rem_token = None, rem_distinct_id = ''user'',
                rem_data = Data ''snapshot a''\<rparr>
        else if v = ''envelope without session'' then
          Json \<lparr>rem_team_id = None, rem_token = Some ''phc_token'', rem_distinct_id = ''user'',
                rem_data = Data ''snapshot without session''\<rparr>
        else if v = ''envelope of another event'' then
          Json \<lparr>rem_team_id = None, rem_token = Some ''phc_token'', rem_distinct_id = ''user'',
                rem_data = Data ''pageview''\<rparr>
        else if v = ''envelope with null data'' then
          Json \<lparr>rem_team_id = None, rem_token = Some ''phc_token'', rem_distinct_id = ''user'',
                rem_data = Data_null\<rparr>
        else Json_throws),
      json_event = (\<lambda>d.
        if d = ''snapshot a'' then
          Json \<lparr>pe_event = Some ''$snapshot_items'',
                pe_properties = Some \<lparr>snapshot_items = Some [''item''], prop_session_id = Some ''a'',
                                      prop_window_id = Some ''w''\<rparr>\<rparr>
        else if d = ''snapshot b'' then
          Json \<lparr>pe_event = Some ''$snapshot_items'',
                pe_properties = Some \<lparr>snapshot_items = Some [''item''], prop_session_id = Some ''b'',
                                      prop_window_id = Some ''w''\<rparr>\<rparr>
        else if d = ''snapshot without session'' then
          Json \<lparr>pe_event = Some ''$snapshot_items'',
                pe_properties = Some \<lparr>snapshot_items = Some [''item''], prop_session_id = None,
                                      prop_window_id = None\<rparr>\<rparr>
        else if d = ''pageview'' then
          Json \<lparr>pe_event = Some ''$pageview'', pe_properties = None\<rparr>
        else Json_throws),
      teams = [''phc_token'' \<mapsto> 7],
      upload_succeeds = (\<lambda>team sid. True),
      downstream_available = True,
      offsets_available = True\<rparr>"

text \<open>A Kafka message on partition 0 of the topic, with the given payload, offset and
  timestamp.\<close>

definition kafka_message :: "string \<Rightarrow> nat \<Rightarrow> nat \<Rightarrow> message" where
  "kafka_message v off ts =
     \<lparr>msg_value = Some v, msg_timestamp = Some ts, msg_topic = ''snap'', msg_partition = 0,
      msg_offset = off\<rparr>"

definition empty_ingester :: ingester where
  "empty_ingester =
     \<lparr>sessions = [], partitionAssignments = Map.empty, offsetHighWaterMarker = (\<lambda>tp. Map.empty),
      batchConsumer = True, commits = [], eventDroppedCounter = [], flushCalls = [],
      replayEvents = []\<rparr>"

definition recording :: "string \<Rightarrow> nat \<Rightarrow> incoming_recording_message" where
  "recording sid off =
     \<lparr>irm_metadata = \<lparr>md_partition = 0, md_topic = ''snap'', md_offset = off, md_timestamp = 1000\<rparr>,
      team_id = 7, distinct_id = ''user'', session_id = Some sid, window_id = Some ''w'',
      events = [''item'']\<rparr>"

definition marked_ingester :: ingester where
  "marked_ingester =
     empty_ingester\<lparr>offsetHighWaterMarker := (\<lambda>tp. Map.empty)((''snap'', 0) := [''b'' \<mapsto> 50])\<rparr>"

definition assigned_ingester :: ingester where
  "assigned_ingester =
     \<lparr>sessions = [], partitionAssignments = [0 \<mapsto> no_metrics], offsetHighWaterMarker = (\<lambda>tp. Map.empty),
      batchConsumer = True, commits = [], eventDroppedCounter = [], flushCalls = [],
      replayEvents = []\<rparr>"

definition example_calls :: "call list" where
  "example_calls = [CommitOffset ''snap'' 0 5, CommitOffset ''snap'' 0 3, CommitOffset ''snap'' 0 9]"

definition committed_ingester :: ingester where
  "committed_ingester =
     assigned_ingester\<lparr>offsetHighWaterMarker :=
       (\<lambda>tp. Map.empty)((''snap'', 0) := [''b'' \<mapsto> 3, ''c'' \<mapsto> 20])\<rparr>"

definition session_at :: "string \<Rightarrow> nat \<Rightarrow> nat \<Rightarrow> nat \<Rightarrow> session_manager" where
  "session_at sid p off ts =
     \<lparr>teamId = 7, sessionId = Some sid, sm_partition = p, sm_topic = ''snap'',
      buffer = \<lparr>oldestKafkaTimestamp = Some ts, newestKafkaTimestamp = Some ts,
                lowest_offset = Some off, highest_offset = Some off, byte_size = 40,
                event_count = 1\<rparr>\<rparr>"

definition revoke_ingester :: ingester where
  "revoke_ingester =
     \<lparr>sessions = [(''7-a'', session_at ''a'' 0 10 2000), (''7-b'', session_at ''b'' 0 11 1000),
                  (''7-z'', session_at ''z'' 1 5 1500)],
      partitionAssignments = [0 \<mapsto> no_metrics, 1 \<mapsto> no_metrics],
      offsetHighWaterMarker = (\<lambda>tp. Map.empty),
      batchConsumer = True, commits = [], eventDroppedCounter = [], flushCalls = [],
      replayEvents = []\<rparr>"

definition stale_ingester :: ingester where
  "stale_ingester =
     \<lparr>sessions = [(''7-a'', session_at ''a'' 0 10 1000)],
      partitionAssignments =
        [0 \<mapsto> \<lparr>lastMessageTimestamp = Some 100000, lastMessageOffset = Some 11,
                 lastKnownCommit = Some 9\<rparr>],
      offsetHighWaterMarker = (\<lambda>tp. Map.empty),
      batchConsumer = True, commits = [(''snap'', 0, 10)], eventDroppedCounter = [], flushCalls = [],
      replayEvents = []\<rparr>"

definition busy_ingester :: ingester where
  "busy_ingester =
     \<lparr>sessions = [(''7-a'', session_at ''a'' 0 10 1000)],
      partitionAssignments =
        [0 \<mapsto> \<lparr>lastMessageTimestamp = Some 2000, lastMessageOffset = Some 10,
                 lastKnownCommit = Some 9\<rparr>],
      offsetHighWaterMarker = (\<lambda>tp. Map.empty),
      batchConsumer = True, commits = [(''snap'', 0, 10)], eventDroppedCounter = [], flushCalls = [],
      replayEvents = []\<rparr>"

text \<open>An environment in which the upload of session \<open>c\<close> fails, and an ingester with three
  session managers on partition 0, whose reference time is 100000: \<open>a\<close> and \<open>c\<close> have buffers
  older than the age limit, \<open>b\<close> has a young one.\<close>

definition flaky_env :: environment where
  "flaky_env = example_env\<lparr>upload_succeeds := (\<lambda>team sid. sid \<noteq> Some ''c'')\<rparr>"

definition mixed_ingester :: ingester where
  "mixed_ingester =
     \<lparr>sessions = [(''7-a'', session_at ''a'' 0 10 1000), (''7-b'', session_at ''b'' 0 12 99000),
                  (''7-c'', session_at ''c'' 0 11 2000)],
      partitionAssignments =
        [0 \<mapsto> \<lparr>lastMessageTimestamp = Some 100000, lastMessageOffset = Some 12,
                 lastKnownCommit = Some 9\<rparr>],
      offsetHighWaterMarker = (\<lambda>tp. Map.empty),
      batchConsumer = True, commits = [(''snap'', 0, 10)], eventDroppedCounter = [], flushCalls = [],
      replayEvents = []\<rparr>"

text \<open>A batch of two messages on partition 0, one for session \<open>a\<close> and one for session
  \<open>b\<close>, and an ingester whose partition 0 has consumed and committed up to offset 99.\<close>

definition two_session_batch :: "nat \<Rightarrow> nat \<Rightarrow> message list" where
  "two_session_batch off off' =
     [kafka_message ''envelope a'' off 1000, kafka_message ''envelope b'' off' 1000]"

definition caught_up_ingester :: ingester where
  "caught_up_ingester =
     \<lparr>sessions = [],
      partitionAssignments =
        [0 \<mapsto> \<lparr>lastMessageTimestamp = Some 900, lastMessageOffset = Some 99,
                 lastKnownCommit = Some 99\<rparr>],
      offsetHighWaterMarker = (\<lambda>tp. Map.empty),
      batchConsumer = True, commits = [(''snap'', 0, 100)], eventDroppedCounter = [],
      flushCalls = [], replayEvents = []\<rparr>"

text \<open>The session manager of a session that has taken one message of the example
  environment, at the given offset and the timestamp 1000.\<close>

definition one_message_session :: "string \<Rightarrow> nat \<Rightarrow> session_manager" where
  "one_message_session sid off =
     \<lparr>teamId = 7, sessionId = Some sid, sm_partition = 0, sm_topic = ''snap'',
      buffer = \<lparr>oldestKafkaTimestamp = Some 1000, newestKafkaTimestamp = Some 1000,
                lowest_offset = Some off, highest_offset = Some off, byte_size = 4,
                event_count = 1\<rparr>\<rparr>"


section \<open>Properties\<close>

subsection \<open>Frame lemmas\<close>

lemma with_sm_world_fields [simp]:
  "sessions (with_sm_world w s) = sessions s"
  "partitionAssignments (with_sm_world w s) = partitionAssignments s"
  "batchConsumer (with_sm_world w s) = batchConsumer s"
  "commits (with_sm_world w s) = commits s"
  "eventDroppedCounter (with_sm_world w s) = eventDroppedCounter s"
  "replayEvents (with_sm_world w s) = replayEvents s"
  "offsetHighWaterMarker (with_sm_world w s) = fst w"
  "flushCalls (with_sm_world w s) = snd w"
  by (simp_all add: with_sm_world_def)

lemma with_sm_world_same [simp]: "with_sm_world (sm_world_of s) s = s"
  by (simp add: with_sm_world_def sm_world_of_def)

lemma consume_frame:
  "partitionAssignments (consume cfg env event s) = partitionAssignments s"
  "commits (consume cfg env event s) = commits s"
  "batchConsumer (consume cfg env event s) = batchConsumer s"
  by (simp_all add: consume_def Let_def split: option.splits)

lemma consumeAll_frame:
  "partitionAssignments (consumeAll cfg env evs s) = partitionAssignments s"
  "commits (consumeAll cfg env evs s) = commits s"
  "batchConsumer (consumeAll cfg env evs s) = batchConsumer s"
  by (induction evs arbitrary: s) (simp_all add: consume_frame)

lemma destroySessions_frame:
  "partitionAssignments (destroySessions ds s) = partitionAssignments s"
  "commits (destroySessions ds s) = commits s"
  "batchConsumer (destroySessions ds s) = batchConsumer s"
  "offsetHighWaterMarker (destroySessions ds s) = offsetHighWaterMarker s"
  "flushCalls (destroySessions ds s) = flushCalls s"
  "eventDroppedCounter (destroySessions ds s) = eventDroppedCounter s"
  "replayEvents (destroySessions ds s) = replayEvents s"
  by (induction ds s rule: destroySessions.induct) simp_all

lemma flushReady_frame:
  "partitionAssignments (flushReady cfg env es s) = partitionAssignments s"
  "commits (flushReady cfg env es s) = commits s"
  "batchConsumer (flushReady cfg env es s) = batchConsumer s"
  by (induction cfg env es s rule: flushReady.induct)
     (simp_all add: Let_def destroySessions_frame split: option.splits)

lemma loop_state_push_front [simp]: "loop_state (push_front rm r) = loop_state r"
  by (cases r) simp_all

lemma updateMetrics_frame:
  "commits (updateMetrics m s) = commits s"
  "sessions (updateMetrics m s) = sessions s"
  "batchConsumer (updateMetrics m s) = batchConsumer s"
  "offsetHighWaterMarker (updateMetrics m s) = offsetHighWaterMarker s"
  "flushCalls (updateMetrics m s) = flushCalls s"
  by (simp_all add: updateMetrics_def split: option.splits)

lemma parseMessages_frame:
  "commits (loop_state (parseMessages env ms s)) = commits s"
  "sessions (loop_state (parseMessages env ms s)) = sessions s"
  "batchConsumer (loop_state (parseMessages env ms s)) = batchConsumer s"
  "offsetHighWaterMarker (loop_state (parseMessages env ms s)) = offsetHighWaterMarker s"
  "flushCalls (loop_state (parseMessages env ms s)) = flushCalls s"
  by (induction ms arbitrary: s)
     (simp_all add: Let_def updateMetrics_frame split: parse_outcome.splits)

subsection \<open>High-water-mark deduplication in \<open>consume\<close>\<close>

text \<open>C3. An event whose offset is at or below the stored mark of its session id, or at or
  below the stored partition-global mark, is dropped by \<open>consume\<close>: the dropped counter is
  incremented with the cause \<open>high_water_mark\<close> (session mark) or \<open>high_water_mark_partition\<close>,
  and nothing else of the ingester changes: no session manager is created, none is added to,
  and no flush is started.\<close>

theorem consume_drops_at_or_below_mark:
  assumes "key = js_string (session_id event) \<or> key = HIGH_WATERMARK_KEY"
    and "offsetHighWaterMarker s (md_topic (irm_metadata event), md_partition (irm_metadata event)) key
           = Some mark"
    and "md_offset (irm_metadata event) \<le> mark"
  shows "consume cfg env event s =
           s\<lparr>eventDroppedCounter := eventDroppedCounter s @
               [if isBelowHighWaterMark (offsetHighWaterMarker s) (irm_metadata event)
                     (js_string (session_id event)) (md_offset (irm_metadata event))
                then ''high_water_mark'' else ''high_water_mark_partition'']\<rparr>
         \<and> sessions (consume cfg env event s) = sessions s
         \<and> flushCalls (consume cfg env event s) = flushCalls s"
proof -
  have below: "isBelowHighWaterMark (offsetHighWaterMarker s) (irm_metadata event) key
                 (md_offset (irm_metadata event))"
    using assms(2,3) by (simp add: isBelowHighWaterMark_def)
  show ?thesis
  proof (cases "isBelowHighWaterMark (offsetHighWaterMarker s) (irm_metadata event)
                  (js_string (session_id event)) (md_offset (irm_metadata event))")
    case True
    then show ?thesis by (simp add: consume_def Let_def)
  next
    case False
    with below assms(1) have "isBelowHighWaterMark (offsetHighWaterMarker s) (irm_metadata event)
        HIGH_WATERMARK_KEY (md_offset (irm_metadata event))"
      by auto
    with False show ?thesis by (simp add: consume_def Let_def)
  qed
qed

theorem consume_drops_at_or_below_mark_witness:
  "consume example_cfg example_env (recording ''b'' 48) marked_ingester =
     marked_ingester\<lparr>eventDroppedCounter := [''high_water_mark'']\<rparr>
   \<and> sessions (consume example_cfg example_env (recording ''b'' 48) marked_ingester) = []"
  using consume_drops_at_or_below_mark
    [of "''b''" "recording ''b'' 48" marked_ingester 50 example_cfg example_env]
  by (simp add: recording_def marked_ingester_def empty_ingester_def isBelowHighWaterMark_def)

subsection \<open>Commit gating\<close>

lemma committed_on_simps [simp]:
  "committed_on p [] = []"
  "committed_on p (cs @ ds) = committed_on p cs @ committed_on p ds"
  "committed_on p [(t, q, n)] = (if q = p then [n] else [])"
  by (simp_all add: committed_on_def)

lemma advances_frame:
  assumes "partitionAssignments s p \<noteq> None"
    and "partitionAssignments s' = partitionAssignments s" and "commits s' = commits s"
  shows "advances p s s'"
  using assms by (simp add: advances_def lastKnownCommit_or_0_def)

lemma advances_trans:
  assumes "advances p s s1" and "advances p s1 s2"
  shows "advances p s s2"
proof -
  from assms(1) obtain cs where cs: "commits s1 = commits s @ cs"
    "sorted_wrt (<) (committed_on p cs)"
    "\<forall>c \<in> set (committed_on p cs). lastKnownCommit_or_0 s p + 1 < c \<and> c \<le> lastKnownCommit_or_0 s1 p + 1"
    and le1: "lastKnownCommit_or_0 s p \<le> lastKnownCommit_or_0 s1 p"
    by (auto simp: advances_def)
  from assms(2) obtain ds where ds: "commits s2 = commits s1 @ ds"
    "sorted_wrt (<) (committed_on p ds)"
    "\<forall>c \<in> set (committed_on p ds). lastKnownCommit_or_0 s1 p + 1 < c \<and> c \<le> lastKnownCommit_or_0 s2 p + 1"
    and le2: "lastKnownCommit_or_0 s1 p \<le> lastKnownCommit_or_0 s2 p"
    and asg: "partitionAssignments s2 p \<noteq> None"
    by (auto simp: advances_def)
  have "commits s2 = commits s @ (cs @ ds)" using cs(1) ds(1) by simp
  moreover have "sorted_wrt (<) (committed_on p (cs @ ds))"
    using cs(2,3) ds(2,3) by (fastforce simp: sorted_wrt_append)
  moreover have "\<forall>c \<in> set (committed_on p (cs @ ds)).
      lastKnownCommit_or_0 s p + 1 < c \<and> c \<le> lastKnownCommit_or_0 s2 p + 1"
    using cs(3) ds(3) le1 le2 by fastforce
  ultimately show ?thesis
    unfolding advances_def using asg le1 le2 by (meson le_trans)
qed

lemma commitOffset_step:
  "commitOffset topic q off s =
     (if highestOffsetToCommit topic q off s \<le> lastKnownCommit_or_0 s q then s
      else s\<lparr>partitionAssignments :=
             (case partitionAssignments s q of
                None \<Rightarrow> partitionAssignments s
              | Some metrics \<Rightarrow> (partitionAssignments s)(q \<mapsto> metrics\<lparr>lastKnownCommit := Some (highestOffsetToCommit topic q off s)\<rparr>)),
           commits := (if batchConsumer s then commits s @ [(topic, q, highestOffsetToCommit topic q off s + 1)] else commits s),
           offsetHighWaterMarker :=
             hwm_clear (hwm_add (offsetHighWaterMarker s) (topic, q) HIGH_WATERMARK_KEY (highestOffsetToCommit topic q off s))
               (topic, q) (highestOffsetToCommit topic q off s)\<rparr>)"
  by (simp add: commitOffset_def Let_def)

lemma commitOffset_advances:
  assumes "partitionAssignments s p \<noteq> None"
  shows "advances p s (commitOffset topic q off s)"
proof (cases "highestOffsetToCommit topic q off s \<le> lastKnownCommit_or_0 s q")
  case True
  then show ?thesis using assms by (simp add: commitOffset_step advances_frame)
next
  case False
  show ?thesis
  proof (cases "q = p")
    case True
    with False assms show ?thesis
      by (auto simp: commitOffset_step advances_def lastKnownCommit_or_0_def)
  next
    case neq: False
    with False assms show ?thesis
      by (auto simp: commitOffset_step advances_def lastKnownCommit_or_0_def split: option.splits)
  qed
qed

lemma updateMetrics_advances:
  assumes "partitionAssignments s p \<noteq> None"
  shows "advances p s (updateMetrics m s)"
  using assms
  by (auto simp: updateMetrics_def advances_def lastKnownCommit_or_0_def split: option.splits)

lemma parseMessages_advances:
  assumes "partitionAssignments s p \<noteq> None"
  shows "advances p s (loop_state (parseMessages env ms s))"
  using assms
proof (induction ms arbitrary: s)
  case Nil
  then show ?case by (simp add: advances_frame)
next
  case (Cons m ms)
  let ?s1 = "updateMetrics m s"
  have a1: "advances p s ?s1" using Cons.prems by (rule updateMetrics_advances)
  then have asg1: "partitionAssignments ?s1 p \<noteq> None" by (simp add: advances_def)
  show ?case
  proof (cases "parseKafkaMessage env m (getTeamFn env)")
    case (Thrown f)
    with a1 show ?thesis by (simp add: Let_def)
  next
    case (Dropped reason)
    let ?s2 = "if reason = team_missing_or_disabled
               then ?s1\<lparr>eventDroppedCounter := eventDroppedCounter ?s1 @ [''team_missing_or_disabled'']\<rparr>
               else ?s1"
    have "advances p ?s1 ?s2" using asg1 by (intro advances_frame) auto
    with a1 have a2: "advances p s ?s2" by (rule advances_trans)
    then have "partitionAssignments ?s2 p \<noteq> None" by (simp add: advances_def)
    then have "advances p ?s2 (loop_state (parseMessages env ms ?s2))" by (rule Cons.IH)
    with a2 have "advances p s (loop_state (parseMessages env ms ?s2))" by (rule advances_trans)
    with Dropped a1 show ?thesis by (simp add: Let_def)
  next
    case (Parsed rm)
    have "advances p ?s1 (loop_state (parseMessages env ms ?s1))" using asg1 by (rule Cons.IH)
    with a1 have "advances p s (loop_state (parseMessages env ms ?s1))" by (rule advances_trans)
    with Parsed a1 show ?thesis by (simp add: Let_def)
  qed
qed

lemma commitAll_advances:
  assumes "partitionAssignments s p \<noteq> None"
  shows "advances p s (commitAll ms s)"
  using assms
proof (induction ms arbitrary: s)
  case Nil
  then show ?case by (simp add: advances_frame)
next
  case (Cons m ms)
  let ?s1 = "commitOffset (msg_topic m) (msg_partition m) (msg_offset m) s"
  have a1: "advances p s ?s1" using Cons.prems by (rule commitOffset_advances)
  then have "partitionAssignments ?s1 p \<noteq> None" by (simp add: advances_def)
  then have "advances p ?s1 (commitAll ms ?s1)" by (rule Cons.IH)
  with a1 show ?case by (simp add: advances_trans)
qed

lemma consumeBatch_frame:
  "partitionAssignments (result_state (consumeBatch env evs s)) = partitionAssignments s"
  "commits (result_state (consumeBatch env evs s)) = commits s"
  "batchConsumer (result_state (consumeBatch env evs s)) = batchConsumer s"
  "sessions (result_state (consumeBatch env evs s)) = sessions s"
  by (induction env evs s rule: consumeBatch.induct) simp_all


lemma handleEachBatch_advances:
  assumes "partitionAssignments s p \<noteq> None"
  shows "advances p s (result_state (handleEachBatch cfg env ms s))"
proof (cases "parseMessages env ms s")
  case (Raised f s1)
  have "advances p s (loop_state (parseMessages env ms s))"
    using assms by (rule parseMessages_advances)
  with Raised show ?thesis by (simp add: handleEachBatch_def)
next
  case (All_parsed rms s1)
  let ?s2 = "consumeAll cfg env rms s1"
  let ?s3 = "commitAll ms ?s2"
  let ?s4 = "result_state (consumeBatch env rms ?s3)"
  have "advances p s (loop_state (parseMessages env ms s))"
    using assms by (rule parseMessages_advances)
  with All_parsed have a1: "advances p s s1" by simp
  then have asg1: "partitionAssignments s1 p \<noteq> None" by (simp add: advances_def)
  then have "advances p s1 ?s2" by (intro advances_frame) (simp_all add: consumeAll_frame)
  with a1 have a2: "advances p s ?s2" by (rule advances_trans)
  then have "partitionAssignments ?s2 p \<noteq> None" by (simp add: advances_def)
  then have "advances p ?s2 ?s3" by (rule commitAll_advances)
  with a2 have a3: "advances p s ?s3" by (rule advances_trans)
  then have asg3: "partitionAssignments ?s3 p \<noteq> None" by (simp add: advances_def)
  then have "advances p ?s3 ?s4" by (intro advances_frame) (simp_all add: consumeBatch_frame)
  with a3 have a4: "advances p s ?s4" by (rule advances_trans)
  then have asg4: "partitionAssignments ?s4 p \<noteq> None" by (simp add: advances_def)
  then have "advances p ?s4 (flushAllReadySessions cfg env ?s4)"
    by (intro advances_frame) (simp_all add: flushAllReadySessions_def flushReady_frame)
  with a4 have a5: "advances p s (flushAllReadySessions cfg env ?s4)" by (rule advances_trans)
  show ?thesis
  proof (cases "consumeBatch env rms ?s3")
    case (Completed s4)
    with a5 All_parsed show ?thesis by (simp add: handleEachBatch_def Let_def)
  next
    case (Failed s4)
    with a4 All_parsed show ?thesis by (simp add: handleEachBatch_def Let_def)
  qed
qed

lemma run_calls_advances:
  assumes "partitionAssignments s p \<noteq> None"
  shows "advances p s (run_calls cfg calls s)"
  using assms
proof (induction cfg calls s rule: run_calls.induct)
  case (1 cfg s)
  then show ?case by (simp add: advances_frame)
next
  case (2 cfg env messages rest s)
  let ?s1 = "result_state (handleEachBatch cfg env messages s)"
  have a1: "advances p s ?s1" using "2.prems" by (rule handleEachBatch_advances)
  then have "partitionAssignments ?s1 p \<noteq> None" by (simp add: advances_def)
  then have "advances p ?s1 (run_calls cfg rest ?s1)" by (rule "2.IH")
  with a1 show ?case by (simp add: advances_trans)
next
  case (3 cfg topic q off rest s)
  let ?s1 = "commitOffset topic q off s"
  have a1: "advances p s ?s1" using "3.prems" by (rule commitOffset_advances)
  then have "partitionAssignments ?s1 p \<noteq> None" by (simp add: advances_def)
  then have "advances p ?s1 (run_calls cfg rest ?s1)" by (rule "3.IH")
  with a1 show ?case by (simp add: advances_trans)
qed

text \<open>C8. \<open>commitOffset\<close> issues a broker commit (at the computed offset plus one) only when
  the computed offset is strictly greater than the last known commit of the partition, and
  then records the computed offset as the last known commit of an assigned partition;
  otherwise it changes nothing. Over any history of batches and \<open>commitOffset\<close> calls the
  offsets committed for the partition are strictly increasing, and all lie above the last
  known commit the history started from, plus one.\<close>

theorem commit_gating_strictly_monotonic:
  "(if lastKnownCommit_or_0 s p < highestOffsetToCommit topic p off s
    then commits (commitOffset topic p off s) =
           (if batchConsumer s
            then commits s @ [(topic, p, highestOffsetToCommit topic p off s + 1)]
            else commits s)
         \<and> (partitionAssignments s p \<noteq> None \<longrightarrow>
              lastKnownCommit_or_0 (commitOffset topic p off s) p
                = highestOffsetToCommit topic p off s)
    else commitOffset topic p off s = s)
   \<and> (partitionAssignments s p \<noteq> None \<longrightarrow>
        (\<exists>cs. commits (run_calls cfg calls s) = commits s @ cs
             \<and> sorted_wrt (<) (committed_on p cs)
             \<and> (\<forall>c \<in> set (committed_on p cs). lastKnownCommit_or_0 s p + 1 < c)))"
proof -
  have seq: "\<exists>cs. commits (run_calls cfg calls s) = commits s @ cs
                 \<and> sorted_wrt (<) (committed_on p cs)
                 \<and> (\<forall>c \<in> set (committed_on p cs). lastKnownCommit_or_0 s p + 1 < c)"
    if "partitionAssignments s p \<noteq> None"
  proof -
    have "advances p s (run_calls cfg calls s)"
      using that by (rule run_calls_advances)
    then show ?thesis unfolding advances_def by blast
  qed
  have one: "if lastKnownCommit_or_0 s p < highestOffsetToCommit topic p off s
          then commits (commitOffset topic p off s) =
                 (if batchConsumer s
                  then commits s @ [(topic, p, highestOffsetToCommit topic p off s + 1)]
                  else commits s)
               \<and> (partitionAssignments s p \<noteq> None \<longrightarrow>
                    lastKnownCommit_or_0 (commitOffset topic p off s) p
                      = highestOffsetToCommit topic p off s)
          else commitOffset topic p off s = s"
    by (auto simp: commitOffset_step lastKnownCommit_or_0_def)
  from one seq show ?thesis by blast
qed

theorem commit_gating_strictly_monotonic_witness:
  "partitionAssignments assigned_ingester 0 = Some no_metrics
   \<and> commits (commitOffset ''snap'' 0 5 assigned_ingester) = [(''snap'', 0, 6)]
   \<and> lastKnownCommit_or_0 (commitOffset ''snap'' 0 5 assigned_ingester) 0 = 5
   \<and> commits (run_calls example_cfg example_calls assigned_ingester) = [(''snap'', 0, 6), (''snap'', 0, 10)]
   \<and> sorted_wrt (<) (committed_on 0 (commits (run_calls example_cfg example_calls assigned_ingester)))"
proof -
  have asg: "partitionAssignments assigned_ingester 0 = Some no_metrics"
    by (simp add: assigned_ingester_def)
  have h: "highestOffsetToCommit ''snap'' 0 5 assigned_ingester = 5"
    by (simp add: highestOffsetToCommit_def potentiallyBlockingOffset_def assigned_ingester_def)
  have l: "lastKnownCommit_or_0 assigned_ingester 0 = 0"
    by (simp add: lastKnownCommit_or_0_def assigned_ingester_def no_metrics_def)
  have c: "commits assigned_ingester = []" "batchConsumer assigned_ingester"
    by (simp_all add: assigned_ingester_def)
  have r: "commits (run_calls example_cfg example_calls assigned_ingester) = [(''snap'', 0, 6), (''snap'', 0, 10)]"
    by (simp add: example_calls_def assigned_ingester_def commitOffset_def highestOffsetToCommit_def
        potentiallyBlockingOffset_def lastKnownCommit_or_0_def no_metrics_def Let_def)
  from commit_gating_strictly_monotonic
         [of assigned_ingester 0 "''snap''" 5 example_cfg example_calls]
  show ?thesis using asg by (auto simp: h l c r)
qed

subsection \<open>A commit raises the partition-global mark\<close>

lemma keys_distinct [simp]: "HIGH_WATERMARK_KEY \<noteq> REPLAY_EVENTS_KEY"
  by (simp add: HIGH_WATERMARK_KEY_def REPLAY_EVENTS_KEY_def)

lemma hwm_add_keeps_global:
  "global_mark_at_least marks tp c \<Longrightarrow> global_mark_at_least (hwm_add marks tp' key off) tp c"
  by (auto simp: global_mark_at_least_def hwm_add_def split: option.splits)

lemma hwm_clear_keeps_global:
  "global_mark_at_least marks tp c \<Longrightarrow> global_mark_at_least (hwm_clear marks tp' off) tp c"
  by (auto simp: global_mark_at_least_def hwm_clear_def split: option.splits)

lemma flush_keeps_global:
  "global_mark_at_least (fst w) tp c \<Longrightarrow> global_mark_at_least (fst (snd (flush env reason sm w))) tp c"
  by (auto simp: flush_def Let_def hwm_add_keeps_global split: option.splits)

lemma sm_add_keeps_global:
  "global_mark_at_least (fst w) tp c \<Longrightarrow> global_mark_at_least (fst (snd (sm_add cfg env ev sm w))) tp c"
  by (simp add: sm_add_def Let_def flush_keeps_global)

lemma flushIfSessionBufferIsOld_keeps_global:
  "global_mark_at_least (fst w) tp c \<Longrightarrow>
   global_mark_at_least (fst (snd (flushIfSessionBufferIsOld cfg env t sm w))) tp c"
  by (simp add: flushIfSessionBufferIsOld_def flush_keeps_global)

lemma consume_keeps_global:
  "global_mark_at_least (offsetHighWaterMarker s) tp c \<Longrightarrow>
   global_mark_at_least (offsetHighWaterMarker (consume cfg env ev s)) tp c"
  by (auto simp: consume_def Let_def sm_world_of_def intro!: sm_add_keeps_global split: option.splits)

lemma consumeAll_keeps_global:
  "global_mark_at_least (offsetHighWaterMarker s) tp c \<Longrightarrow>
   global_mark_at_least (offsetHighWaterMarker (consumeAll cfg env evs s)) tp c"
  by (induction evs arbitrary: s) (simp_all add: consume_keeps_global)

lemma commitOffset_keeps_global:
  "global_mark_at_least (offsetHighWaterMarker s) tp c \<Longrightarrow>
   global_mark_at_least (offsetHighWaterMarker (commitOffset topic p off s)) tp c"
  by (simp add: commitOffset_def Let_def hwm_add_keeps_global hwm_clear_keeps_global)

lemma commitAll_keeps_global:
  "global_mark_at_least (offsetHighWaterMarker s) tp c \<Longrightarrow>
   global_mark_at_least (offsetHighWaterMarker (commitAll ms s)) tp c"
  by (induction ms arbitrary: s) (simp_all add: commitOffset_keeps_global)

lemma consumeBatch_keeps_global:
  "global_mark_at_least (offsetHighWaterMarker s) tp c \<Longrightarrow>
   global_mark_at_least (offsetHighWaterMarker (result_state (consumeBatch env evs s))) tp c"
  by (induction env evs s rule: consumeBatch.induct) (simp_all add: hwm_add_keeps_global)

lemma flushReady_keeps_global:
  "global_mark_at_least (offsetHighWaterMarker s) tp c \<Longrightarrow>
   global_mark_at_least (offsetHighWaterMarker (flushReady cfg env es s)) tp c"
proof (induction cfg env es s rule: flushReady.induct)
  case (1 cfg env s)
  then show ?case by simp
next
  case (2 cfg env key sessionManager rest s)
  have step: "global_mark_at_least (offsetHighWaterMarker s') tp c \<Longrightarrow>
     global_mark_at_least (fst (snd (flushIfSessionBufferIsOld cfg env t sessionManager (sm_world_of s')))) tp c"
    for s' t
    by (intro flushIfSessionBufferIsOld_keeps_global) (simp add: sm_world_of_def)
  from 2 show ?case
    by (auto simp: Let_def destroySessions_frame step split: option.splits)
qed


lemma handleEachBatch_keeps_global:
  assumes "global_mark_at_least (offsetHighWaterMarker s) tp c"
  shows "global_mark_at_least (offsetHighWaterMarker (result_state (handleEachBatch cfg env ms s))) tp c"
proof (cases "parseMessages env ms s")
  case (Raised f s1)
  have "global_mark_at_least (offsetHighWaterMarker (loop_state (parseMessages env ms s))) tp c"
    using assms by (simp add: parseMessages_frame)
  with Raised show ?thesis by (simp add: handleEachBatch_def)
next
  case (All_parsed rms s1)
  let ?s3 = "commitAll ms (consumeAll cfg env rms s1)"
  have "global_mark_at_least (offsetHighWaterMarker (loop_state (parseMessages env ms s))) tp c"
    using assms by (simp add: parseMessages_frame)
  with All_parsed have "global_mark_at_least (offsetHighWaterMarker s1) tp c" by simp
  then have "global_mark_at_least (offsetHighWaterMarker ?s3) tp c"
    by (intro commitAll_keeps_global consumeAll_keeps_global)
  then have g4: "global_mark_at_least (offsetHighWaterMarker (result_state (consumeBatch env rms ?s3))) tp c"
    by (rule consumeBatch_keeps_global)
  show ?thesis
  proof (cases "consumeBatch env rms ?s3")
    case (Completed s4)
    with g4 All_parsed show ?thesis
      by (simp add: handleEachBatch_def Let_def flushAllReadySessions_def flushReady_keeps_global)
  next
    case (Failed s4)
    with g4 All_parsed show ?thesis by (simp add: handleEachBatch_def Let_def)
  qed
qed

lemma run_calls_keeps_global:
  "global_mark_at_least (offsetHighWaterMarker s) tp c \<Longrightarrow>
   global_mark_at_least (offsetHighWaterMarker (run_calls cfg calls s)) tp c"
  by (induction cfg calls s rule: run_calls.induct)
     (simp_all add: handleEachBatch_keeps_global commitOffset_keeps_global)

lemma commitOffset_sets_global:
  assumes "lastKnownCommit_or_0 s p < highestOffsetToCommit topic p off s"
  shows "global_mark_at_least (offsetHighWaterMarker (commitOffset topic p off s)) (topic, p)
           (highestOffsetToCommit topic p off s)"
  using assms
  by (simp add: commitOffset_def Let_def global_mark_at_least_def hwm_clear_def hwm_add_def
      split: option.splits)

lemma consume_below_global:
  assumes "global_mark_at_least (offsetHighWaterMarker s)
             (md_topic (irm_metadata event), md_partition (irm_metadata event)) c"
    and "md_offset (irm_metadata event) \<le> c"
  shows "consume cfg env event s =
           s\<lparr>eventDroppedCounter := eventDroppedCounter s @
               [if isBelowHighWaterMark (offsetHighWaterMarker s) (irm_metadata event)
                     (js_string (session_id event)) (md_offset (irm_metadata event))
                then ''high_water_mark'' else ''high_water_mark_partition'']\<rparr>"
proof -
  have "isBelowHighWaterMark (offsetHighWaterMarker s) (irm_metadata event) HIGH_WATERMARK_KEY
          (md_offset (irm_metadata event))"
    using assms by (auto simp: isBelowHighWaterMark_def global_mark_at_least_def split: option.splits)
  then show ?thesis by (simp add: consume_def Let_def)
qed

text \<open>C9. When \<open>commitOffset\<close> commits at offset \<open>C\<close> (its computed offset, above the last known
  commit), the partition-global high-water mark of the topic-partition is afterwards at least
  \<open>C\<close>, no per-session mark of the topic-partition with a value of at most \<open>C\<close> is left, and
  after any further history of batches and commits an event of that topic-partition with an
  offset of at most \<open>C\<close> is dropped by \<open>consume\<close> as a duplicate, whether or not a session
  manager ever flushed it.\<close>

theorem commit_raises_partition_mark:
  assumes "lastKnownCommit_or_0 s p < highestOffsetToCommit topic p off s"
    and "md_topic (irm_metadata event) = topic" and "md_partition (irm_metadata event) = p"
    and "md_offset (irm_metadata event) \<le> highestOffsetToCommit topic p off s"
  shows "global_mark_at_least (offsetHighWaterMarker (commitOffset topic p off s)) (topic, p)
           (highestOffsetToCommit topic p off s)
       \<and> (\<forall>key mark. key \<noteq> HIGH_WATERMARK_KEY \<and> key \<noteq> REPLAY_EVENTS_KEY
             \<and> offsetHighWaterMarker (commitOffset topic p off s) (topic, p) key = Some mark
             \<longrightarrow> highestOffsetToCommit topic p off s < mark)
       \<and> consume cfg env event (run_calls cfg calls (commitOffset topic p off s)) =
           (run_calls cfg calls (commitOffset topic p off s))
             \<lparr>eventDroppedCounter :=
                eventDroppedCounter (run_calls cfg calls (commitOffset topic p off s)) @
                [if isBelowHighWaterMark
                      (offsetHighWaterMarker (run_calls cfg calls (commitOffset topic p off s)))
                      (irm_metadata event) (js_string (session_id event))
                      (md_offset (irm_metadata event))
                 then ''high_water_mark'' else ''high_water_mark_partition'']\<rparr>"
proof -
  let ?c = "highestOffsetToCommit topic p off s"
  let ?s' = "commitOffset topic p off s"
  have g: "global_mark_at_least (offsetHighWaterMarker ?s') (topic, p) ?c"
    using assms(1) by (rule commitOffset_sets_global)
  have cleared: "\<forall>key mark. key \<noteq> HIGH_WATERMARK_KEY \<and> key \<noteq> REPLAY_EVENTS_KEY
             \<and> offsetHighWaterMarker ?s' (topic, p) key = Some mark \<longrightarrow> ?c < mark"
    using assms(1)
    by (auto simp: commitOffset_def Let_def hwm_clear_def hwm_add_def split: option.splits if_splits)
  have "global_mark_at_least (offsetHighWaterMarker (run_calls cfg calls ?s'))
          (md_topic (irm_metadata event), md_partition (irm_metadata event)) ?c"
    using g assms(2,3) by (simp add: run_calls_keeps_global)
  from consume_below_global [OF this assms(4)] g cleared show ?thesis by blast
qed

theorem commit_raises_partition_mark_witness:
  "lastKnownCommit_or_0 committed_ingester 0 < highestOffsetToCommit ''snap'' 0 9 committed_ingester
   \<and> offsetHighWaterMarker (commitOffset ''snap'' 0 9 committed_ingester) (''snap'', 0) HIGH_WATERMARK_KEY = Some 9
   \<and> offsetHighWaterMarker (commitOffset ''snap'' 0 9 committed_ingester) (''snap'', 0) ''b'' = None
   \<and> offsetHighWaterMarker (commitOffset ''snap'' 0 9 committed_ingester) (''snap'', 0) ''c'' = Some 20
   \<and> global_mark_at_least (offsetHighWaterMarker (commitOffset ''snap'' 0 9 committed_ingester)) (''snap'', 0) 9
   \<and> eventDroppedCounter
        (consume example_cfg example_env (recording ''z'' 7) (commitOffset ''snap'' 0 9 committed_ingester))
        = [''high_water_mark_partition'']"
proof -
  have h: "highestOffsetToCommit ''snap'' 0 9 committed_ingester = 9"
    by (simp add: highestOffsetToCommit_def potentiallyBlockingOffset_def committed_ingester_def
        assigned_ingester_def)
  have l: "lastKnownCommit_or_0 committed_ingester 0 = 0"
    by (simp add: lastKnownCommit_or_0_def committed_ingester_def assigned_ingester_def no_metrics_def)
  have m: "offsetHighWaterMarker (commitOffset ''snap'' 0 9 committed_ingester) (''snap'', 0)
      = [''c'' \<mapsto> 20, HIGH_WATERMARK_KEY \<mapsto> 9]"
    unfolding commitOffset_step h l
    by (auto simp: committed_ingester_def assigned_ingester_def
        hwm_clear_def hwm_add_def HIGH_WATERMARK_KEY_def REPLAY_EVENTS_KEY_def fun_eq_iff)
  have c: "eventDroppedCounter (commitOffset ''snap'' 0 9 committed_ingester) = []"
    unfolding commitOffset_step h l
    by (simp add: committed_ingester_def assigned_ingester_def)
  have lt: "lastKnownCommit_or_0 committed_ingester 0 < highestOffsetToCommit ''snap'' 0 9 committed_ingester"
    by (simp add: h l)
  have nb: "\<not> isBelowHighWaterMark (offsetHighWaterMarker (commitOffset ''snap'' 0 9 committed_ingester))
       (irm_metadata (recording ''z'' 7)) ''z'' 7"
    by (simp add: isBelowHighWaterMark_def recording_def m HIGH_WATERMARK_KEY_def)
  from commit_raises_partition_mark [OF lt, of "recording ''z'' 7" example_cfg example_env "[]"]
  show ?thesis
    using lt nb by (simp add: h m c recording_def) (simp add: HIGH_WATERMARK_KEY_def)
qed

subsection \<open>Revoking partitions\<close>

lemma destroySessions_sessions:
  "sessions (destroySessions ds s) = filter (\<lambda>entry. fst entry \<notin> set (map fst ds)) (sessions s)"
proof (induction ds s rule: destroySessions.induct)
  case (1 s)
  then show ?case by simp
next
  case (2 key sessionManager rest s)
  have "AList.delete key (sessions s) = filter (\<lambda>entry. fst entry \<noteq> key) (sessions s)"
    by (simp add: AList.delete_eq case_prod_unfold eq_commute)
  with 2 show ?case by (simp add: conj_commute)
qed

lemma dropPartitions_sessions [simp]:
  "sessions (dropPartitions tps s) = sessions s"
  by (induction tps s rule: dropPartitions.induct) simp_all

lemma dropPartitions_assignments:
  "partitionAssignments (dropPartitions tps s) p =
     (if p \<in> set (map snd tps) then None else partitionAssignments s p)"
  by (induction tps s rule: dropPartitions.induct) auto

lemma dropPartitions_frame [simp]:
  "commits (dropPartitions tps s) = commits s"
  "flushCalls (dropPartitions tps s) = flushCalls s"
  "offsetHighWaterMarker (dropPartitions tps s) = offsetHighWaterMarker s"
  by (induction tps s rule: dropPartitions.induct) (simp_all add: hwm_revoke_def)

text \<open>C5. After \<open>onRevokePartitions\<close> was called with a non-empty list of topic-partitions,
  no session manager whose partition is among the revoked ones is left in \<open>sessions\<close>, and
  \<open>partitionAssignments\<close> has no entry for a revoked partition.\<close>

theorem revoke_leaves_no_session_or_assignment:
  assumes "topicPartitions \<noteq> []"
  shows "(\<forall>entry \<in> set (sessions (onRevokePartitions cfg env topicPartitions s)).
            sm_partition (snd entry) \<notin> set (map snd topicPartitions))
       \<and> (\<forall>tp \<in> set topicPartitions.
            partitionAssignments (onRevokePartitions cfg env topicPartitions s) (snd tp) = None)"
proof -
  let ?dropped = "sessionsToDrop topicPartitions s"
  let ?s1 = "if SESSION_RECORDING_PARTITION_REVOKE_OPTIMIZATION cfg
             then with_sm_world
                    (flushAll env partition_shutdown
                       (array_sort revoke_comparefn (map snd ?dropped)) (sm_world_of s)) s
             else s"
  have run: "onRevokePartitions cfg env topicPartitions s
               = destroySessions ?dropped (dropPartitions topicPartitions ?s1)"
    using assms by (simp add: onRevokePartitions_def Let_def)
  have ss: "sessions ?s1 = sessions s" by simp
  have "sessions (onRevokePartitions cfg env topicPartitions s)
          = filter (\<lambda>entry. fst entry \<notin> set (map fst ?dropped)) (sessions s)"
    unfolding run destroySessions_sessions dropPartitions_sessions ss ..
  moreover have "sm_partition (snd entry) \<notin> set (map snd topicPartitions)"
    if "entry \<in> set (sessions s)" and "fst entry \<notin> set (map fst ?dropped)" for entry
  proof
    assume "sm_partition (snd entry) \<in> set (map snd topicPartitions)"
    with that(1) have "entry \<in> set ?dropped" by (simp add: sessionsToDrop_def)
    then have "fst entry \<in> set (map fst ?dropped)" by simp
    with that(2) show False by contradiction
  qed
  ultimately have first: "\<forall>entry \<in> set (sessions (onRevokePartitions cfg env topicPartitions s)).
            sm_partition (snd entry) \<notin> set (map snd topicPartitions)"
    by simp
  have "partitionAssignments (onRevokePartitions cfg env topicPartitions s) (snd tp) = None"
    if "tp \<in> set topicPartitions" for tp
    unfolding run using that by (simp add: destroySessions_frame dropPartitions_assignments)
  with first show ?thesis by blast
qed

theorem revoke_leaves_no_session_or_assignment_witness:
  "sessions (onRevokePartitions example_cfg example_env [(''snap'', 0)] revoke_ingester)
     = [(''7-z'', session_at ''z'' 1 5 1500)]
   \<and> partitionAssignments (onRevokePartitions example_cfg example_env [(''snap'', 0)] revoke_ingester) 0
       = None"
proof -
  have d: "sessionsToDrop [(''snap'', 0)] revoke_ingester =
      [(''7-a'', session_at ''a'' 0 10 2000), (''7-b'', session_at ''b'' 0 11 1000)]"
    by (simp add: sessionsToDrop_def revoke_ingester_def session_at_def)
  have s: "sessions (onRevokePartitions example_cfg example_env [(''snap'', 0)] revoke_ingester)
     = [(''7-z'', session_at ''z'' 1 5 1500)]"
    by (simp add: onRevokePartitions_def Let_def destroySessions_sessions d)
       (simp add: revoke_ingester_def)
  from revoke_leaves_no_session_or_assignment
         [of "[(''snap'', 0)]" example_cfg example_env revoke_ingester]
  show ?thesis using s by simp
qed


text \<open>The comparator of line 555 never answers a negative number, so the sort leaves the
  managers in the order of the dictionary, and that is the order their flushes start in.\<close>

lemma sort_insert_no_negative:
  assumes "\<And>x y. \<not> js_less (comparefn x y) (Finite 0)"
  shows "sort_insert comparefn x placed = x # placed"
  using assms by (cases placed) simp_all

lemma sort_from_no_negative:
  assumes "\<And>x y. \<not> js_less (comparefn x y) (Finite 0)"
  shows "sort_from comparefn placed xs = rev placed @ xs"
  using assms by (induction xs arbitrary: placed) (simp_all add: sort_insert_no_negative)

lemma revoke_comparefn_not_negative: "\<not> js_less (revoke_comparefn x y) (Finite 0)"
  by (cases "oldestKafkaTimestamp (buffer x)") (simp_all add: revoke_comparefn_def)

lemma array_sort_revoke_comparefn: "array_sort revoke_comparefn xs = xs"
  by (simp add: array_sort_def sort_from_no_negative revoke_comparefn_not_negative)

lemma flushAll_calls:
  "snd (flushAll env reason xs w) = snd w @ map (\<lambda>x. (teamId x, sessionId x, reason)) xs"
  by (induction xs arbitrary: w) (simp_all add: flush_def Let_def split: option.splits)

lemma revoke_flush_calls:
  assumes "topicPartitions \<noteq> []" and "SESSION_RECORDING_PARTITION_REVOKE_OPTIMIZATION cfg"
  shows "flushCalls (onRevokePartitions cfg env topicPartitions s) =
           flushCalls s @ map (\<lambda>x. (teamId x, sessionId x, partition_shutdown))
                              (map snd (sessionsToDrop topicPartitions s))"
  using assms
  by (simp add: onRevokePartitions_def Let_def destroySessions_frame array_sort_revoke_comparefn
      flushAll_calls sm_world_of_def)

text \<open>C6. With the revoke optimization enabled the sessions of the revoked partitions were to
  be flushed oldest Kafka timestamp first. On the ingester below, session \<open>a\<close> (oldest timestamp
  2000) and session \<open>b\<close> (oldest timestamp 1000) are both on the revoked partition 0; the flush
  of \<open>a\<close> is started before the flush of \<open>b\<close>.\<close>

theorem revoke_flushes_in_insertion_order:
  "map (\<lambda>entry. oldestKafkaTimestamp (buffer (snd entry)))
     (sessionsToDrop [(''snap'', 0)] revoke_ingester) = [Some 2000, Some 1000]
   \<and> flushCalls (onRevokePartitions example_cfg example_env [(''snap'', 0)] revoke_ingester) =
       [(7, Some ''a'', partition_shutdown), (7, Some ''b'', partition_shutdown)]"
proof -
  have d: "sessionsToDrop [(''snap'', 0)] revoke_ingester =
      [(''7-a'', session_at ''a'' 0 10 2000), (''7-b'', session_at ''b'' 0 11 1000)]"
    by (simp add: sessionsToDrop_def revoke_ingester_def session_at_def)
  have "flushCalls revoke_ingester = []" by (simp add: revoke_ingester_def)
  then show ?thesis
    by (simp add: revoke_flush_calls example_cfg_def d) (simp add: session_at_def)
qed

subsection \<open>Parsing a Kafka message\<close>

lemma truthy_number_iff: "truthy_number x \<longleftrightarrow> (\<exists>t. x = Some t \<and> t \<noteq> 0)"
  by (cases x) simp_all

lemma truthy_string_iff: "truthy_string x \<longleftrightarrow> (\<exists>t. x = Some t \<and> t \<noteq> [])"
  by (cases x) simp_all

lemma no_snapshot_items_iff:
  "\<not> no_snapshot_items x \<longleftrightarrow> (\<exists>props items. x = Some props \<and> snapshot_items props = Some items \<and> items \<noteq> [])"
  by (cases x) (auto split: option.splits)

lemma parse_data_Json_iff:
  "parse_data env x = Json event \<longleftrightarrow> (\<exists>d. x = Data d \<and> json_event env d = Json event)"
  by (cases x) simp_all

lemma parseKafkaMessage_Parsed_iff:
  "parseKafkaMessage env message getTeam = Parsed m \<longleftrightarrow>
     (\<exists>v t payload d event props items token team.
        msg_value message = Some v \<and> msg_timestamp message = Some t \<and> t \<noteq> 0
        \<and> json_payload env v = Json payload \<and> rem_data payload = Data d
        \<and> json_event env d = Json event
        \<and> pe_event event = Some ''$snapshot_items'' \<and> pe_properties event = Some props
        \<and> snapshot_items props = Some items \<and> items \<noteq> []
        \<and> rem_token payload = Some token \<and> token \<noteq> [] \<and> getTeam token = Some team
        \<and> m = \<lparr>irm_metadata =
                   \<lparr>md_partition = msg_partition message, md_topic = msg_topic message,
                    md_offset = msg_offset message, md_timestamp = t\<rparr>,
                 team_id = team, distinct_id = rem_distinct_id payload,
                 session_id = prop_session_id props, window_id = prop_window_id props,
                 events = items\<rparr>)"
  (is "?l \<longleftrightarrow> ?r")
proof
  assume ?l
  then show ?r
    by (auto simp: parseKafkaMessage_def truthy_number_iff truthy_string_iff no_snapshot_items_iff
          parse_data_Json_iff split: option.splits if_splits json.splits)
next
  assume ?r
  then show ?l by (auto simp: parseKafkaMessage_def)
qed

text \<open>The one way \<open>parseKafkaMessage\<close> throws: the envelope parses and its \<open>data\<close> is \<^verbatim>\<open>null\<close> or
  parses to \<^verbatim>\<open>null\<close>.\<close>

lemma parseKafkaMessage_Thrown_iff:
  "parseKafkaMessage env message getTeam = Thrown f \<longleftrightarrow>
     f = TypeError
     \<and> (\<exists>v t payload.
          msg_value message = Some v \<and> msg_timestamp message = Some t \<and> t \<noteq> 0
          \<and> json_payload env v = Json payload
          \<and> parse_data env (rem_data payload) = Json_null)"
  by (auto simp: parseKafkaMessage_def truthy_number_iff
      split: option.splits if_splits json.splits)

lemma parseKafkaMessage_team_id_only:
  assumes "msg_value message = Some v" and "msg_timestamp message = Some t" and "t \<noteq> 0"
    and "json_payload env v = Json payload" and "rem_data payload = Data d"
    and "json_event env d = Json event"
    and "pe_event event = Some ''$snapshot_items''" and "\<not> no_snapshot_items (pe_properties event)"
    and "rem_team_id payload = Some team" and "\<not> truthy_string (rem_token payload)"
  shows "parseKafkaMessage env message getTeam = Dropped team_missing_or_disabled"
  using assms by (simp add: parseKafkaMessage_def)

lemma parse_garbage:
  "parseKafkaMessage example_env (kafka_message ''garbage'' off ts) (getTeamFn example_env)
     = Dropped (if ts = 0 then value_or_timestamp_empty else invalid_json)"
  by (simp add: parseKafkaMessage_def kafka_message_def example_env_def)

text \<open>C4, as the code has it. \<open>parseKafkaMessage\<close> returns a recording message exactly when the
  raw message has a value and a non-zero timestamp, both JSON layers parse, the inner event is
  \<open>$snapshot_items\<close> with a non-empty \<open>$snapshot_items\<close> array, and the envelope carries a
  non-empty token that the team lookup resolves. The message then has the partition, topic,
  offset and timestamp of the raw message as its metadata and the resolved team as its team.
  Any deviation yields no message but a drop with a reason, as long as the \<open>data\<close> of the
  envelope is not \<^verbatim>\<open>null\<close> and does not parse to \<^verbatim>\<open>null\<close>. A \<open>$session_id\<close> is not asked for, and
  the \<open>team_id\<close> of the envelope is not used: an envelope that is in order, with a \<open>team_id\<close>
  and no token, is dropped as \<open>team_missing_or_disabled\<close>.\<close>

theorem parseKafkaMessage_returns_message_iff:
  "(parseKafkaMessage env message getTeam = Parsed m \<longleftrightarrow>
     (\<exists>v t payload d event props items token team.
        msg_value message = Some v \<and> msg_timestamp message = Some t \<and> t \<noteq> 0
        \<and> json_payload env v = Json payload \<and> rem_data payload = Data d
        \<and> json_event env d = Json event
        \<and> pe_event event = Some ''$snapshot_items'' \<and> pe_properties event = Some props
        \<and> snapshot_items props = Some items \<and> items \<noteq> []
        \<and> rem_token payload = Some token \<and> token \<noteq> [] \<and> getTeam token = Some team
        \<and> m = \<lparr>irm_metadata =
                   \<lparr>md_partition = msg_partition message, md_topic = msg_topic message,
                    md_offset = msg_offset message, md_timestamp = t\<rparr>,
                 team_id = team, distinct_id = rem_distinct_id payload,
                 session_id = prop_session_id props, window_id = prop_window_id props,
                 events = items\<rparr>))
   \<and> ((\<forall>m'. parseKafkaMessage env message getTeam \<noteq> Parsed m')
        \<and> \<not> (\<exists>v' t' payload'.
               msg_value message = Some v' \<and> msg_timestamp message = Some t' \<and> t' \<noteq> 0
               \<and> json_payload env v' = Json payload'
               \<and> parse_data env (rem_data payload') = Json_null)
        \<longrightarrow> (\<exists>reason. parseKafkaMessage env message getTeam = Dropped reason))
   \<and> (msg_value message = Some v0 \<and> msg_timestamp message = Some t0 \<and> t0 \<noteq> 0
        \<and> json_payload env v0 = Json payload0 \<and> rem_data payload0 = Data d0
        \<and> json_event env d0 = Json event0
        \<and> pe_event event0 = Some ''$snapshot_items'' \<and> \<not> no_snapshot_items (pe_properties event0)
        \<and> rem_team_id payload0 = Some team0 \<and> \<not> truthy_string (rem_token payload0)
        \<longrightarrow> parseKafkaMessage env message getTeam = Dropped team_missing_or_disabled)"
proof (intro conjI impI)
  show "parseKafkaMessage env message getTeam = Parsed m \<longleftrightarrow>
     (\<exists>v t payload d event props items token team.
        msg_value message = Some v \<and> msg_timestamp message = Some t \<and> t \<noteq> 0
        \<and> json_payload env v = Json payload \<and> rem_data payload = Data d
        \<and> json_event env d = Json event
        \<and> pe_event event = Some ''$snapshot_items'' \<and> pe_properties event = Some props
        \<and> snapshot_items props = Some items \<and> items \<noteq> []
        \<and> rem_token payload = Some token \<and> token \<noteq> [] \<and> getTeam token = Some team
        \<and> m = \<lparr>irm_metadata =
                   \<lparr>md_partition = msg_partition message, md_topic = msg_topic message,
                    md_offset = msg_offset message, md_timestamp = t\<rparr>,
                 team_id = team, distinct_id = rem_distinct_id payload,
                 session_id = prop_session_id props, window_id = prop_window_id props,
                 events = items\<rparr>)"
    by (rule parseKafkaMessage_Parsed_iff)
next
  assume a: "(\<forall>m'. parseKafkaMessage env message getTeam \<noteq> Parsed m')
        \<and> \<not> (\<exists>v' t' payload'.
               msg_value message = Some v' \<and> msg_timestamp message = Some t' \<and> t' \<noteq> 0
               \<and> json_payload env v' = Json payload'
               \<and> parse_data env (rem_data payload') = Json_null)"
  show "\<exists>reason. parseKafkaMessage env message getTeam = Dropped reason"
  proof (cases "parseKafkaMessage env message getTeam")
    case (Thrown f)
    then have "\<exists>v' t' payload'.
               msg_value message = Some v' \<and> msg_timestamp message = Some t' \<and> t' \<noteq> 0
               \<and> json_payload env v' = Json payload'
               \<and> parse_data env (rem_data payload') = Json_null"
      by (simp add: parseKafkaMessage_Thrown_iff)
    with a show ?thesis by blast
  next
    case (Dropped reason)
    then show ?thesis by simp
  next
    case (Parsed m')
    with a show ?thesis by simp
  qed
next
  assume "msg_value message = Some v0 \<and> msg_timestamp message = Some t0 \<and> t0 \<noteq> 0
        \<and> json_payload env v0 = Json payload0 \<and> rem_data payload0 = Data d0
        \<and> json_event env d0 = Json event0
        \<and> pe_event event0 = Some ''$snapshot_items'' \<and> \<not> no_snapshot_items (pe_properties event0)
        \<and> rem_team_id payload0 = Some team0 \<and> \<not> truthy_string (rem_token payload0)"
  then show "parseKafkaMessage env message getTeam = Dropped team_missing_or_disabled"
    by (intro parseKafkaMessage_team_id_only [of message v0 t0 env payload0 d0 event0 team0]) simp_all
qed

theorem parseKafkaMessage_returns_message_iff_witness:
  "parseKafkaMessage example_env (kafka_message ''envelope a'' 12 1000) (getTeamFn example_env) =
       Parsed \<lparr>irm_metadata = \<lparr>md_partition = 0, md_topic = ''snap'', md_offset = 12, md_timestamp = 1000\<rparr>,
            team_id = 7, distinct_id = ''user'', session_id = Some ''a'', window_id = Some ''w'',
            events = [''item'']\<rparr>
   \<and> parseKafkaMessage example_env (kafka_message ''envelope with team_id only'' 10 1000)
       (getTeamFn example_env) = Dropped team_missing_or_disabled
   \<and> (\<exists>reason. parseKafkaMessage example_env (kafka_message ''garbage'' 10 1000)
                  (getTeamFn example_env) = Dropped reason)"
proof -
  note g = parseKafkaMessage_returns_message_iff
     [of example_env "kafka_message ''garbage'' 10 1000" "getTeamFn example_env"]
  note t = parseKafkaMessage_returns_message_iff
     [of example_env "kafka_message ''envelope a'' 12 1000" "getTeamFn example_env"]
  note u = parseKafkaMessage_returns_message_iff
     [of example_env "kafka_message ''envelope with team_id only'' 10 1000" "getTeamFn example_env"
        _ "''envelope with team_id only''" 1000
        "\<lparr>rem_team_id = Some 7, rem_token = None, rem_distinct_id = ''user'',
          rem_data = Data ''snapshot a''\<rparr>"
        "''snapshot a''"
        "\<lparr>pe_event = Some ''$snapshot_items'',
          pe_properties = Some \<lparr>snapshot_items = Some [''item''], prop_session_id = Some ''a'',
                                prop_window_id = Some ''w''\<rparr>\<rparr>"
        7]
  have a: "parseKafkaMessage example_env (kafka_message ''envelope a'' 12 1000) (getTeamFn example_env) =
       Parsed \<lparr>irm_metadata = \<lparr>md_partition = 0, md_topic = ''snap'', md_offset = 12, md_timestamp = 1000\<rparr>,
            team_id = 7, distinct_id = ''user'', session_id = Some ''a'', window_id = Some ''w'',
            events = [''item'']\<rparr>"
    by (subst t [THEN conjunct1]) (simp add: kafka_message_def example_env_def getTeamFn_def)
  have b: "parseKafkaMessage example_env (kafka_message ''envelope with team_id only'' 10 1000)
       (getTeamFn example_env) = Dropped team_missing_or_disabled"
    by (rule u [THEN conjunct2, THEN conjunct2, THEN mp])
       (simp add: kafka_message_def example_env_def)
  have c: "\<exists>reason. parseKafkaMessage example_env (kafka_message ''garbage'' 10 1000)
                  (getTeamFn example_env) = Dropped reason"
    by (rule g [THEN conjunct2, THEN conjunct1, THEN mp])
       (simp add: parse_garbage, simp add: kafka_message_def example_env_def)
  from a b c show ?thesis by simp
qed

text \<open>An envelope that carries a \<open>team_id\<close> and no token passes the \<open>no_token\<close> guard and is
  then given up as \<open>team_missing_or_disabled\<close>; an event without a \<open>$session_id\<close> is
  returned, with an undefined session id; and an envelope whose \<open>data\<close> is \<^verbatim>\<open>null\<close> is not
  dropped: the call throws.\<close>

theorem parseKafkaMessage_team_id_only_counterexample:
  "json_payload example_env ''envelope with team_id only'' =
     Json \<lparr>rem_team_id = Some 7, rem_token = None, rem_distinct_id = ''user'',
           rem_data = Data ''snapshot a''\<rparr>
   \<and> parseKafkaMessage example_env (kafka_message ''envelope with team_id only'' 10 1000)
       (getTeamFn example_env) = Dropped team_missing_or_disabled
   \<and> parseKafkaMessage example_env (kafka_message ''envelope without session'' 11 1000)
       (getTeamFn example_env) =
       Parsed \<lparr>irm_metadata = \<lparr>md_partition = 0, md_topic = ''snap'', md_offset = 11, md_timestamp = 1000\<rparr>,
            team_id = 7, distinct_id = ''user'', session_id = None, window_id = None,
            events = [''item'']\<rparr>
   \<and> json_payload example_env ''envelope with null data'' =
       Json \<lparr>rem_team_id = None, rem_token = Some ''phc_token'', rem_distinct_id = ''user'',
             rem_data = Data_null\<rparr>
   \<and> parseKafkaMessage example_env (kafka_message ''envelope with null data'' 12 1000)
       (getTeamFn example_env) = Thrown TypeError"
  by (simp add: parseKafkaMessage_def kafka_message_def example_env_def getTeamFn_def)

subsection \<open>The empty batch\<close>

lemma flushReady_idle:
  assumes "\<forall>e \<in> set es. session_idle cfg s (snd e)"
    and "\<forall>e \<in> set es. map_of (sessions s) (fst e) = Some (snd e)"
  shows "flushReady cfg env es s = s"
  using assms
proof (induction es)
  case Nil
  then show ?case by simp
next
  case (Cons e es)
  obtain key sm where e: "e = (key, sm)" by (cases e)
  from Cons.prems have idle: "session_idle cfg s sm" and look: "map_of (sessions s) key = Some sm"
    by (simp_all add: e)
  from Cons have rest: "flushReady cfg env es s = s" by simp
  have upd: "AList.update key sm (sessions s) = sessions s"
    using look by (rule AList.update_triv)
  show ?case
  proof (cases "partitionAssignments s (sm_partition sm)")
    case None
    then show ?thesis by (simp add: e rest)
  next
    case (Some metrics)
    show ?thesis
    proof (cases "truthy_number (lastMessageTimestamp metrics)")
      case False
      with Some show ?thesis by (simp add: e rest)
    next
      case True
      with idle Some have quiet: "\<not> buffer_is_old cfg (or_zero (lastMessageTimestamp metrics)) sm"
        "byte_size (buffer sm) < SIZE_LIMIT cfg" "\<not> isEmpty sm"
        by (simp_all add: session_idle_def)
      then have "flushIfSessionBufferIsOld cfg env (or_zero (lastMessageTimestamp metrics)) sm
                   (sm_world_of s) = (sm, sm_world_of s)"
        by (simp add: flushIfSessionBufferIsOld_def)
      with Some True quiet(3) show ?thesis by (simp add: e rest upd Let_def)
    qed
  qed
qed

lemma flushAllReadySessions_idle:
  assumes "distinct (map fst (sessions s))"
    and "\<forall>e \<in> set (sessions s). session_idle cfg s (snd e)"
  shows "flushAllReadySessions cfg env s = s"
  unfolding flushAllReadySessions_def
  using assms by (intro flushReady_idle) auto

lemma flushReady_Cons:
  "flushReady cfg env ((key, sm) # rest) s = flushReady cfg env rest (flushEntry cfg env key sm s)"
  by (simp add: flushEntry_def Let_def split: option.splits)

lemma flushEntry_frame:
  "partitionAssignments (flushEntry cfg env key sm s) = partitionAssignments s"
  "commits (flushEntry cfg env key sm s) = commits s"
  unfolding flushEntry_def by (rule flushReady_frame)+

lemma reference_time_frame:
  "partitionAssignments s' = partitionAssignments s \<Longrightarrow> reference_time s' sm = reference_time s sm"
  by (simp add: reference_time_def)

lemma session_uploaded_frame:
  "partitionAssignments s' = partitionAssignments s \<Longrightarrow>
   session_uploaded cfg env s' sm = session_uploaded cfg env s sm"
  by (simp add: session_uploaded_def reference_time_frame [of s' s])

lemma session_removed_frame:
  "partitionAssignments s' = partitionAssignments s \<Longrightarrow>
   session_removed cfg env s' sm = session_removed cfg env s sm"
  by (simp add: session_removed_def reference_time_frame [of s' s]
      session_uploaded_frame [of s' s])

lemma reference_time_Some:
  "reference_time s sm = Some t \<longleftrightarrow>
     (\<exists>metrics. partitionAssignments s (sm_partition sm) = Some metrics
        \<and> lastMessageTimestamp metrics = Some t \<and> t \<noteq> 0)"
  by (auto simp: reference_time_def truthy_number_iff split: option.splits)

lemma flush_not_uploaded:
  assumes "isEmpty sm \<or> \<not> upload_succeeds env (teamId sm) (sessionId sm)"
  shows "fst (flush env reason sm w) = sm" and "fst (snd (flush env reason sm w)) = fst w"
  using assms by (auto simp: flush_def Let_def)

lemma flush_uploaded:
  assumes "\<not> isEmpty sm" and "upload_succeeds env (teamId sm) (sessionId sm)"
  shows "isEmpty (fst (flush env reason sm w))"
  using assms by (simp add: flush_def Let_def isEmpty_def empty_buffer_def split: option.splits)

text \<open>What one turn of the loop does to the dictionary.\<close>

lemma flushEntry_removed:
  assumes "session_removed cfg env s sm"
  shows "sessions (flushEntry cfg env key sm s) = AList.delete key (sessions s)"
proof -
  from assms obtain t where t: "reference_time s sm = Some t"
    by (auto simp: session_removed_def)
  then obtain metrics where m: "partitionAssignments s (sm_partition sm) = Some metrics"
    "lastMessageTimestamp metrics = Some t" "t \<noteq> 0"
    by (auto simp: reference_time_Some)
  have "isEmpty (fst (flushIfSessionBufferIsOld cfg env t sm (sm_world_of s)))"
  proof (cases "isEmpty sm")
    case True
    then show ?thesis by (simp add: flushIfSessionBufferIsOld_def flush_not_uploaded)
  next
    case False
    with assms t have "session_uploaded cfg env s sm" by (simp add: session_removed_def)
    with t False show ?thesis
      by (auto simp: session_uploaded_def flushIfSessionBufferIsOld_def flush_uploaded)
  qed
  with m show ?thesis
    by (simp add: flushEntry_def Let_def AList.delete_update_same)
qed

lemma flushEntry_kept:
  assumes "\<not> session_removed cfg env s sm" and "map_of (sessions s) key = Some sm"
  shows "sessions (flushEntry cfg env key sm s) = sessions s"
proof (cases "reference_time s sm")
  case None
  then show ?thesis
    by (auto simp: flushEntry_def reference_time_def split: option.splits if_splits)
next
  case (Some t)
  then obtain metrics where m: "partitionAssignments s (sm_partition sm) = Some metrics"
    "lastMessageTimestamp metrics = Some t" "t \<noteq> 0"
    by (auto simp: reference_time_Some)
  from assms(1) Some have e: "\<not> isEmpty sm" and u: "\<not> session_uploaded cfg env s sm"
    by (simp_all add: session_removed_def)
  have "fst (flushIfSessionBufferIsOld cfg env t sm (sm_world_of s)) = sm"
    using e u Some
    by (auto simp: session_uploaded_def flushIfSessionBufferIsOld_def flush_not_uploaded)
  moreover have "AList.update key sm (sessions s) = sessions s"
    using assms(2) by (rule AList.update_triv)
  ultimately show ?thesis using m e by (simp add: flushEntry_def Let_def)
qed

lemma flushReady_sessions:
  assumes "distinct (map fst (sessions s))" and "distinct (map fst es)"
    and "set es \<subseteq> set (sessions s)"
  shows "sessions (flushReady cfg env es s)
           = filter (\<lambda>e. \<not> (e \<in> set es \<and> session_removed cfg env s (snd e))) (sessions s)"
  using assms
proof (induction es arbitrary: s)
  case Nil
  then show ?case by simp
next
  case (Cons e es)
  obtain key sm where e: "e = (key, sm)" by (cases e)
  let ?s1 = "flushEntry cfg env key sm s"
  have pa: "partitionAssignments ?s1 = partitionAssignments s" by (rule flushEntry_frame)
  have mem: "(key, sm) \<in> set (sessions s)" using Cons.prems(3) by (simp add: e)
  have look: "map_of (sessions s) key = Some sm"
    using Cons.prems(1) mem by simp
  have other: "fst x \<noteq> key" if "x \<in> set (sessions s)" "x \<noteq> (key, sm)" for x
  proof
    assume "fst x = key"
    then have "(key, snd x) \<in> set (sessions s)" using that(1) by (cases x) simp
    with Cons.prems(1) mem have "sm = snd x" by (rule eq_key_imp_eq_value)
    with \<open>fst x = key\<close> that(2) show False by (cases x) simp
  qed
  have fresh: "fst x \<noteq> key" if "x \<in> set es" for x
    using Cons.prems(2) that by (auto simp: e)
  show ?case
  proof (cases "session_removed cfg env s sm")
    case True
    then have s1: "sessions ?s1 = AList.delete key (sessions s)" by (rule flushEntry_removed)
    then have s1': "sessions ?s1 = filter (\<lambda>x. fst x \<noteq> key) (sessions s)"
      by (auto simp: AList.delete_eq intro!: filter_cong)
    have "sessions (flushReady cfg env es ?s1)
            = filter (\<lambda>x. \<not> (x \<in> set es \<and> session_removed cfg env ?s1 (snd x))) (sessions ?s1)"
    proof (rule Cons.IH)
      show "distinct (map fst (sessions ?s1))"
        using Cons.prems(1) by (simp add: s1 AList.distinct_delete)
      show "distinct (map fst es)" using Cons.prems(2) by simp
      show "set es \<subseteq> set (sessions ?s1)"
        using Cons.prems(3) fresh by (auto simp: s1')
    qed
    also have "\<dots> = filter (\<lambda>x. \<not> (x \<in> set (e # es) \<and> session_removed cfg env s (snd x)))
                       (sessions s)"
      unfolding s1' filter_filter
    proof (intro filter_cong refl)
      fix x
      assume x: "x \<in> set (sessions s)"
      show "(fst x \<noteq> key \<and> \<not> (x \<in> set es \<and> session_removed cfg env ?s1 (snd x)))
              = (\<not> (x \<in> set (e # es) \<and> session_removed cfg env s (snd x)))"
      proof (cases "x = (key, sm)")
        case same: True
        with True show ?thesis by (simp add: e)
      next
        case False
        with x have "fst x \<noteq> key" by (rule other)
        with False show ?thesis by (simp add: e session_removed_frame [OF pa])
      qed
    qed
    finally show ?thesis unfolding e flushReady_Cons .
  next
    case False
    then have s1: "sessions ?s1 = sessions s" using look by (rule flushEntry_kept)
    have "sessions (flushReady cfg env es ?s1)
            = filter (\<lambda>x. \<not> (x \<in> set es \<and> session_removed cfg env ?s1 (snd x))) (sessions ?s1)"
    proof (rule Cons.IH)
      show "distinct (map fst (sessions ?s1))" using Cons.prems(1) by (simp add: s1)
      show "distinct (map fst es)" using Cons.prems(2) by simp
      show "set es \<subseteq> set (sessions ?s1)" using Cons.prems(3) by (simp add: s1)
    qed
    also have "\<dots> = filter (\<lambda>x. \<not> (x \<in> set (e # es) \<and> session_removed cfg env s (snd x)))
                       (sessions s)"
      unfolding s1
    proof (intro filter_cong refl)
      fix x
      show "(\<not> (x \<in> set es \<and> session_removed cfg env ?s1 (snd x)))
              = (\<not> (x \<in> set (e # es) \<and> session_removed cfg env s (snd x)))"
      proof (cases "x = (key, sm)")
        case True
        with False show ?thesis by (simp add: e session_removed_frame [OF pa])
      next
        case other: False
        then show ?thesis by (simp add: e session_removed_frame [OF pa])
      qed
    qed
    finally show ?thesis unfolding e flushReady_Cons .
  qed
qed

text \<open>What the loop does to the high-water marks.\<close>

lemma hwm_add_keeps_mark:
  "mark_at_least marks tp key c \<Longrightarrow> mark_at_least (hwm_add marks tp' key' off) tp key c"
  by (auto simp: mark_at_least_def hwm_add_def split: option.splits)

lemma hwm_add_sets_mark: "mark_at_least (hwm_add marks tp key c) tp key c"
  by (simp add: mark_at_least_def hwm_add_def split: option.splits)

lemma flush_keeps_mark:
  "mark_at_least (fst w) tp key c \<Longrightarrow> mark_at_least (fst (snd (flush env reason sm w))) tp key c"
  by (auto simp: flush_def Let_def hwm_add_keeps_mark split: option.splits)

lemma flushEntry_marks:
  "offsetHighWaterMarker (flushEntry cfg env key sm s) =
     (case reference_time s sm of
        None \<Rightarrow> offsetHighWaterMarker s
      | Some t \<Rightarrow> fst (snd (flushIfSessionBufferIsOld cfg env t sm (sm_world_of s))))"
proof (cases "reference_time s sm")
  case None
  then show ?thesis
    by (auto simp: flushEntry_def reference_time_def split: option.splits if_splits)
next
  case (Some t)
  then obtain metrics where m: "partitionAssignments s (sm_partition sm) = Some metrics"
    "lastMessageTimestamp metrics = Some t" "t \<noteq> 0"
    by (auto simp: reference_time_Some)
  with Some show ?thesis
    by (simp add: flushEntry_def Let_def destroySessions_frame)
qed

lemma flushEntry_keeps_mark:
  assumes "mark_at_least (offsetHighWaterMarker s) tp k c"
  shows "mark_at_least (offsetHighWaterMarker (flushEntry cfg env key sm s)) tp k c"
proof -
  have "mark_at_least (fst (snd (flush env reason sm (sm_world_of s)))) tp k c" for reason
    using assms by (intro flush_keeps_mark) (simp add: sm_world_of_def)
  with assms show ?thesis
    by (simp add: flushEntry_marks flushIfSessionBufferIsOld_def sm_world_of_def
        split: option.splits)
qed

lemma flushReady_keeps_mark:
  "mark_at_least (offsetHighWaterMarker s) tp k c \<Longrightarrow>
   mark_at_least (offsetHighWaterMarker (flushReady cfg env es s)) tp k c"
proof (induction es arbitrary: s)
  case Nil
  then show ?case by simp
next
  case (Cons e es)
  obtain key sm where e: "e = (key, sm)" by (cases e)
  from Cons.prems have "mark_at_least (offsetHighWaterMarker (flushEntry cfg env key sm s)) tp k c"
    by (rule flushEntry_keeps_mark)
  then show ?case unfolding e flushReady_Cons by (rule Cons.IH)
qed

lemma flushEntry_uploaded:
  assumes "session_uploaded cfg env s sm" and "highest_offset (buffer sm) = Some h"
  shows "mark_at_least (offsetHighWaterMarker (flushEntry cfg env key sm s))
           (sm_topic sm, sm_partition sm) (js_string (sessionId sm)) h"
    and "mark_at_least (offsetHighWaterMarker (flushEntry cfg env key sm s))
           (sm_topic sm, sm_partition sm) HIGH_WATERMARK_KEY h"
proof -
  from assms(1) obtain t where t: "reference_time s sm = Some t"
    and due: "buffer_is_old cfg t sm \<or> SIZE_LIMIT cfg \<le> byte_size (buffer sm)"
    and up: "\<not> isEmpty sm" "upload_succeeds env (teamId sm) (sessionId sm)"
    by (auto simp: session_uploaded_def split: option.splits)
  have f: "fst (snd (flush env reason sm w)) =
             hwm_add (hwm_add (fst w) (sm_topic sm, sm_partition sm) (js_string (sessionId sm)) h)
               (sm_topic sm, sm_partition sm) HIGH_WATERMARK_KEY h" for reason w
    using up assms(2) by (simp add: flush_def Let_def)
  have m: "offsetHighWaterMarker (flushEntry cfg env key sm s) =
             hwm_add (hwm_add (offsetHighWaterMarker s) (sm_topic sm, sm_partition sm)
                        (js_string (sessionId sm)) h)
               (sm_topic sm, sm_partition sm) HIGH_WATERMARK_KEY h"
    using due by (auto simp: flushEntry_marks t flushIfSessionBufferIsOld_def f sm_world_of_def)
  show "mark_at_least (offsetHighWaterMarker (flushEntry cfg env key sm s))
           (sm_topic sm, sm_partition sm) (js_string (sessionId sm)) h"
    unfolding m by (intro hwm_add_keeps_mark hwm_add_sets_mark)
  show "mark_at_least (offsetHighWaterMarker (flushEntry cfg env key sm s))
           (sm_topic sm, sm_partition sm) HIGH_WATERMARK_KEY h"
    unfolding m by (rule hwm_add_sets_mark)
qed

lemma flushReady_uploaded:
  assumes "(key, sm) \<in> set es" and "session_uploaded cfg env s sm"
    and "highest_offset (buffer sm) = Some h"
  shows "mark_at_least (offsetHighWaterMarker (flushReady cfg env es s))
           (sm_topic sm, sm_partition sm) (js_string (sessionId sm)) h
       \<and> mark_at_least (offsetHighWaterMarker (flushReady cfg env es s))
           (sm_topic sm, sm_partition sm) HIGH_WATERMARK_KEY h"
  using assms(1,2)
proof (induction es arbitrary: s)
  case Nil
  then show ?case by simp
next
  case (Cons e es)
  obtain key' sm' where e: "e = (key', sm')" by (cases e)
  let ?s1 = "flushEntry cfg env key' sm' s"
  show ?case
  proof (cases "(key, sm) = e")
    case True
    then have k: "key' = key" "sm' = sm" by (simp_all add: e)
    from Cons.prems(2) assms(3) show ?thesis
      unfolding e flushReady_Cons k
      by (intro conjI flushReady_keeps_mark flushEntry_uploaded)
  next
    case False
    with Cons.prems(1) have "(key, sm) \<in> set es" by auto
    moreover have "session_uploaded cfg env ?s1 sm"
      using Cons.prems(2) by (simp add: session_uploaded_frame [OF flushEntry_frame(1)])
    ultimately show ?thesis unfolding e flushReady_Cons by (rule Cons.IH)
  qed
qed

lemma flushEntry_not_uploaded:
  assumes "\<not> session_uploaded cfg env s sm"
  shows "offsetHighWaterMarker (flushEntry cfg env key sm s) = offsetHighWaterMarker s"
proof (cases "reference_time s sm")
  case None
  then show ?thesis by (simp add: flushEntry_marks)
next
  case (Some t)
  with assms have "\<not> (buffer_is_old cfg t sm \<or> SIZE_LIMIT cfg \<le> byte_size (buffer sm))
      \<or> isEmpty sm \<or> \<not> upload_succeeds env (teamId sm) (sessionId sm)"
    by (auto simp: session_uploaded_def)
  then show ?thesis
    by (auto simp: flushEntry_marks Some flushIfSessionBufferIsOld_def flush_not_uploaded
        sm_world_of_def)
qed

lemma flushReady_not_uploaded:
  assumes "\<forall>e \<in> set es. \<not> session_uploaded cfg env s (snd e)"
  shows "offsetHighWaterMarker (flushReady cfg env es s) = offsetHighWaterMarker s"
  using assms
proof (induction es arbitrary: s)
  case Nil
  then show ?case by simp
next
  case (Cons e es)
  obtain key sm where e: "e = (key, sm)" by (cases e)
  let ?s1 = "flushEntry cfg env key sm s"
  have "\<forall>x \<in> set es. \<not> session_uploaded cfg env ?s1 (snd x)"
    using Cons.prems by (simp add: session_uploaded_frame [OF flushEntry_frame(1)])
  then have "offsetHighWaterMarker (flushReady cfg env es ?s1) = offsetHighWaterMarker ?s1"
    by (rule Cons.IH)
  also have "\<dots> = offsetHighWaterMarker s"
    using Cons.prems by (intro flushEntry_not_uploaded) (simp add: e)
  finally show ?case unfolding e flushReady_Cons .
qed

text \<open>C10, as the code has it. Processing an empty batch completes, issues no offset commit
  and leaves \<open>partitionAssignments\<close> as they are; it is a run of \<open>flushAllReadySessions\<close>. Of
  the session managers on a partition with a reference time, it removes from the dictionary
  those that are empty and those whose buffer is due (old at the reference time, or at the
  size limit) and is uploaded; every other manager stays, with its buffer as it was, also one
  whose upload fails. For an uploaded buffer the mark of its session and the partition-global
  mark are at least the highest offset of the buffer afterwards; when no buffer is uploaded
  the marks are unchanged, and when every manager is idle nothing changes at all.\<close>

theorem empty_batch_only_flushes:
  assumes "distinct (map fst (sessions s))"
  shows "\<exists>s'. handleEachBatch cfg env [] s = Completed s'
           \<and> s' = flushAllReadySessions cfg env s
           \<and> commits s' = commits s
           \<and> partitionAssignments s' = partitionAssignments s
           \<and> sessions s' = filter (\<lambda>e. \<not> session_removed cfg env s (snd e)) (sessions s)
           \<and> (\<forall>e \<in> set (sessions s). \<forall>h.
                 session_uploaded cfg env s (snd e) \<and> highest_offset (buffer (snd e)) = Some h
                 \<longrightarrow> mark_at_least (offsetHighWaterMarker s')
                        (sm_topic (snd e), sm_partition (snd e)) (js_string (sessionId (snd e))) h
                     \<and> mark_at_least (offsetHighWaterMarker s')
                        (sm_topic (snd e), sm_partition (snd e)) HIGH_WATERMARK_KEY h)
           \<and> ((\<forall>e \<in> set (sessions s). \<not> session_uploaded cfg env s (snd e))
                \<longrightarrow> offsetHighWaterMarker s' = offsetHighWaterMarker s)
           \<and> ((\<forall>e \<in> set (sessions s). session_idle cfg s (snd e)) \<longrightarrow> s' = s)"
proof (intro exI conjI ballI allI impI)
  let ?s' = "flushAllReadySessions cfg env s"
  show "handleEachBatch cfg env [] s = Completed ?s'"
    by (simp add: handleEachBatch_def)
  show "?s' = flushAllReadySessions cfg env s" by (rule refl)
  show "commits ?s' = commits s" "partitionAssignments ?s' = partitionAssignments s"
    by (simp_all add: flushAllReadySessions_def flushReady_frame)
  have "sessions ?s' = filter (\<lambda>e. \<not> (e \<in> set (sessions s) \<and> session_removed cfg env s (snd e)))
                         (sessions s)"
    unfolding flushAllReadySessions_def using assms by (intro flushReady_sessions) simp_all
  also have "\<dots> = filter (\<lambda>e. \<not> session_removed cfg env s (snd e)) (sessions s)"
    by (intro filter_cong) simp_all
  finally show "sessions ?s' = filter (\<lambda>e. \<not> session_removed cfg env s (snd e)) (sessions s)" .
  show "offsetHighWaterMarker ?s' = offsetHighWaterMarker s"
    if "\<forall>e \<in> set (sessions s). \<not> session_uploaded cfg env s (snd e)"
    unfolding flushAllReadySessions_def using that by (rule flushReady_not_uploaded)
  show "?s' = s" if "\<forall>e \<in> set (sessions s). session_idle cfg s (snd e)"
    using assms that by (rule flushAllReadySessions_idle)
next
  fix e h
  assume e: "e \<in> set (sessions s)"
    and u: "session_uploaded cfg env s (snd e) \<and> highest_offset (buffer (snd e)) = Some h"
  from e have "(fst e, snd e) \<in> set (sessions s)" by simp
  from flushReady_uploaded [OF this, of cfg env s h] u
  show "mark_at_least (offsetHighWaterMarker (flushAllReadySessions cfg env s))
          (sm_topic (snd e), sm_partition (snd e)) (js_string (sessionId (snd e))) h"
    and "mark_at_least (offsetHighWaterMarker (flushAllReadySessions cfg env s))
          (sm_topic (snd e), sm_partition (snd e)) HIGH_WATERMARK_KEY h"
    by (simp_all add: flushAllReadySessions_def)
qed

text \<open>On \<open>mixed_ingester\<close>, with the upload of session \<open>c\<close> failing, the empty batch removes
  session \<open>a\<close> and raises its marks to 10, and keeps \<open>b\<close>, which is young, and \<open>c\<close>, whose upload
  failed; on \<open>busy_ingester\<close>, whose only session is idle, it changes nothing.\<close>

theorem empty_batch_only_flushes_witness:
  "sessions (result_state (handleEachBatch example_cfg flaky_env [] mixed_ingester))
     = [(''7-b'', session_at ''b'' 0 12 99000), (''7-c'', session_at ''c'' 0 11 2000)]
   \<and> commits (result_state (handleEachBatch example_cfg flaky_env [] mixed_ingester))
       = [(''snap'', 0, 10)]
   \<and> mark_at_least (offsetHighWaterMarker
        (result_state (handleEachBatch example_cfg flaky_env [] mixed_ingester)))
        (''snap'', 0) ''a'' 10
   \<and> mark_at_least (offsetHighWaterMarker
        (result_state (handleEachBatch example_cfg flaky_env [] mixed_ingester)))
        (''snap'', 0) HIGH_WATERMARK_KEY 10
   \<and> handleEachBatch example_cfg example_env [] busy_ingester = Completed busy_ingester"
proof -
  have rt: "reference_time mixed_ingester (session_at sid 0 off ts) = Some 100000" for sid off ts
    by (simp add: reference_time_def mixed_ingester_def session_at_def)
  have up: "session_uploaded example_cfg flaky_env mixed_ingester (session_at sid 0 off ts)
              \<longleftrightarrow> ts \<le> 40000 \<and> sid \<noteq> ''c''" for sid off ts
    by (simp add: session_uploaded_def rt)
       (auto simp: buffer_is_old_def session_at_def example_cfg_def isEmpty_def flaky_env_def)
  have rm: "session_removed example_cfg flaky_env mixed_ingester (session_at sid 0 off ts)
              \<longleftrightarrow> ts \<le> 40000 \<and> sid \<noteq> ''c''" for sid off ts
    by (simp add: session_removed_def rt up) (simp add: isEmpty_def session_at_def)
  have d: "distinct (map fst (sessions mixed_ingester))"
    by (simp add: mixed_ingester_def)
  from empty_batch_only_flushes [OF d, of example_cfg flaky_env]
  obtain s' where s': "handleEachBatch example_cfg flaky_env [] mixed_ingester = Completed s'"
    "commits s' = commits mixed_ingester"
    "sessions s' = filter (\<lambda>e. \<not> session_removed example_cfg flaky_env mixed_ingester (snd e))
                     (sessions mixed_ingester)"
    "\<forall>e \<in> set (sessions mixed_ingester). \<forall>h.
        session_uploaded example_cfg flaky_env mixed_ingester (snd e)
        \<and> highest_offset (buffer (snd e)) = Some h
        \<longrightarrow> mark_at_least (offsetHighWaterMarker s')
               (sm_topic (snd e), sm_partition (snd e)) (js_string (sessionId (snd e))) h
            \<and> mark_at_least (offsetHighWaterMarker s')
               (sm_topic (snd e), sm_partition (snd e)) HIGH_WATERMARK_KEY h"
    by (elim exE conjE) simp
  have sl: "sessions mixed_ingester
              = [(''7-a'', session_at ''a'' 0 10 1000), (''7-b'', session_at ''b'' 0 12 99000),
                 (''7-c'', session_at ''c'' 0 11 2000)]"
    by (simp add: mixed_ingester_def)
  have m: "(''7-a'', session_at ''a'' 0 10 1000) \<in> set (sessions mixed_ingester)"
    by (simp add: sl)
  have upa: "session_uploaded example_cfg flaky_env mixed_ingester (snd (''7-a'', session_at ''a'' 0 10 1000))
        \<and> highest_offset (buffer (snd (''7-a'', session_at ''a'' 0 10 1000))) = Some 10"
    by (simp add: up) (simp add: session_at_def)
  from s'(4) [rule_format, OF m upa] have marks:
    "mark_at_least (offsetHighWaterMarker s') (''snap'', 0) ''a'' 10
     \<and> mark_at_least (offsetHighWaterMarker s') (''snap'', 0) HIGH_WATERMARK_KEY 10"
    by (simp add: session_at_def)
  have ss: "sessions s' = [(''7-b'', session_at ''b'' 0 12 99000), (''7-c'', session_at ''c'' 0 11 2000)]"
    unfolding s'(3) sl by (simp add: rm)
  have cs: "commits s' = [(''snap'', 0, 10)]"
    unfolding s'(2) by (simp add: mixed_ingester_def)
  have d2: "distinct (map fst (sessions busy_ingester))"
    by (simp add: busy_ingester_def)
  have i: "\<forall>e \<in> set (sessions busy_ingester). session_idle example_cfg busy_ingester (snd e)"
    by (simp add: busy_ingester_def session_idle_def buffer_is_old_def session_at_def
        example_cfg_def isEmpty_def)
  from empty_batch_only_flushes [OF d2, of example_cfg example_env] i
  have b: "handleEachBatch example_cfg example_env [] busy_ingester = Completed busy_ingester"
    by (elim exE conjE) simp
  from ss cs marks b show ?thesis by (simp add: s'(1))
qed

text \<open>On \<open>stale_ingester\<close> the buffer of session \<open>a\<close> is older than the age limit at the
  reference time of its partition (an earlier upload failed): the empty batch flushes it,
  advances its mark and destroys the manager.\<close>

theorem empty_batch_flushes_counterexample:
  "sessions stale_ingester = [(''7-a'', session_at ''a'' 0 10 1000)]
   \<and> offsetHighWaterMarker stale_ingester (''snap'', 0) ''a'' = None
   \<and> sessions (result_state (handleEachBatch example_cfg example_env [] stale_ingester)) = []
   \<and> offsetHighWaterMarker (result_state (handleEachBatch example_cfg example_env [] stale_ingester))
        (''snap'', 0) ''a'' = Some 10
   \<and> flushCalls (result_state (handleEachBatch example_cfg example_env [] stale_ingester))
        = [(7, Some ''a'', buffer_age)]"
  by (simp add: handleEachBatch_def flushAllReadySessions_def stale_ingester_def Let_def
      flushIfSessionBufferIsOld_def buffer_is_old_def session_at_def example_cfg_def
      sm_world_of_def flush_def isEmpty_def example_env_def hwm_add_def empty_buffer_def
      HIGH_WATERMARK_KEY_def)

subsection \<open>Commit safety\<close>

text \<open>Running a batch of two new sessions through \<open>handleEachBatch\<close>, step by step.\<close>

lemma session_key_7: "session_key 7 sid = ''7-'' @ js_string sid"
  by (simp add: session_key_def string_of_nat.simps digit_chars_def)

lemma parse_envelope_a:
  "parseKafkaMessage example_env (kafka_message ''envelope a'' off 1000) (getTeamFn example_env) =
     Parsed (recording ''a'' off)"
  by (simp add: parseKafkaMessage_def kafka_message_def example_env_def getTeamFn_def recording_def)

lemma parse_envelope_b:
  "parseKafkaMessage example_env (kafka_message ''envelope b'' off 1000) (getTeamFn example_env) =
     Parsed (recording ''b'' off)"
  by (simp add: parseKafkaMessage_def kafka_message_def example_env_def getTeamFn_def recording_def)

lemma update_absent:
  "map_of al k = None \<Longrightarrow> AList.update k v al = al @ [(k, v)]"
  by (induction al) (auto split: if_splits)

lemma update_last:
  "map_of al k = None \<Longrightarrow> AList.update k v (al @ [(k, v0)]) = al @ [(k, v)]"
  by (induction al) (auto split: if_splits)

lemma consume_fresh:
  assumes "\<not> isBelowHighWaterMark (offsetHighWaterMarker s) (irm_metadata event)
               (js_string (session_id event)) (md_offset (irm_metadata event))"
    and "\<not> isBelowHighWaterMark (offsetHighWaterMarker s) (irm_metadata event)
               HIGH_WATERMARK_KEY (md_offset (irm_metadata event))"
    and "map_of (sessions s) (session_key (team_id event) (session_id event)) = None"
  shows "consume cfg env event s =
           with_sm_world
             (snd (sm_add cfg env event
                     (new_SessionManager (team_id event) (session_id event)
                        (md_partition (irm_metadata event)) (md_topic (irm_metadata event)))
                     (sm_world_of s)))
             (s\<lparr>sessions := sessions s @
                  [(session_key (team_id event) (session_id event),
                    fst (sm_add cfg env event
                           (new_SessionManager (team_id event) (session_id event)
                              (md_partition (irm_metadata event)) (md_topic (irm_metadata event)))
                           (sm_world_of s)))]\<rparr>)"
proof -
  let ?key = "session_key (team_id event) (session_id event)"
  let ?new = "new_SessionManager (team_id event) (session_id event)
                (md_partition (irm_metadata event)) (md_topic (irm_metadata event))"
  have 1: "map_of (AList.update ?key ?new (sessions s)) ?key = Some ?new"
    by (simp add: AList.update_conv')
  have 2: "AList.update ?key x (AList.update ?key ?new (sessions s)) = sessions s @ [(?key, x)]" for x
    using assms(3) by (simp add: update_absent update_last)
  have 3: "sm_world_of (s\<lparr>sessions := xs\<rparr>) = sm_world_of s" for xs
    by (simp add: sm_world_of_def)
  show ?thesis
    using assms by (auto simp: consume_def Let_def 3 update_absent update_last split: option.splits)
qed

lemma consume_new_session:
  assumes "offsetHighWaterMarker s (''snap'', 0) = Map.empty"
    and "map_of (sessions s) (''7-'' @ sid) = None"
  shows "consume example_cfg example_env (recording sid off) s =
           s\<lparr>sessions := sessions s @ [(''7-'' @ sid, one_message_session sid off)]\<rparr>"
proof -
  have add: "sm_add example_cfg example_env (recording sid off)
               (new_SessionManager 7 (Some sid) 0 ''snap'') (sm_world_of s)
             = (one_message_session sid off, sm_world_of s)"
    by (simp add: sm_add_def Let_def buffer_append_def new_SessionManager_def empty_buffer_def
        example_cfg_def one_message_session_def recording_def)
  have r: "team_id (recording sid off) = 7" "session_id (recording sid off) = Some sid"
    "md_partition (irm_metadata (recording sid off)) = 0"
    "md_topic (irm_metadata (recording sid off)) = ''snap''"
    by (simp_all add: recording_def)
  have nb: "\<not> isBelowHighWaterMark (offsetHighWaterMarker s) (irm_metadata (recording sid off)) key o'"
    for key o'
    using assms(1) by (simp add: isBelowHighWaterMark_def r)
  have k: "map_of (sessions s) (session_key (team_id (recording sid off)) (session_id (recording sid off))) = None"
    using assms(2) by (simp add: r session_key_7)
  show ?thesis
    by (simp add: consume_fresh [OF nb nb k] r add session_key_7)
       (simp add: with_sm_world_def sm_world_of_def)
qed

lemma consumeBatch_completes:
  "downstream_available env \<Longrightarrow>
   consumeBatch env evs s = Completed (result_state (consumeBatch env evs s))"
  by (induction env evs s rule: consumeBatch.induct) simp_all

lemma handleEachBatch_idle_result:
  assumes "downstream_available env"
    and "parseMessages env messages s = All_parsed recordingMessages s1"
    and "s3 = commitAll messages (consumeAll cfg env recordingMessages s1)"
    and "distinct (map fst (sessions s3))"
    and "\<forall>e \<in> set (sessions s3). session_idle cfg s3 (snd e)"
  shows "handleEachBatch cfg env messages s =
           Completed (result_state (consumeBatch env recordingMessages s3))"
proof -
  let ?s4 = "result_state (consumeBatch env recordingMessages s3)"
  have c: "consumeBatch env recordingMessages s3 = Completed ?s4"
    using assms(1) by (rule consumeBatch_completes)
  have same: "sessions ?s4 = sessions s3" "partitionAssignments ?s4 = partitionAssignments s3"
    by (simp_all add: consumeBatch_frame)
  then have "flushAllReadySessions cfg env ?s4 = ?s4"
    using assms(4,5) by (intro flushAllReadySessions_idle) (simp_all add: session_idle_def)
  then have "(case consumeBatch env recordingMessages s3 of
               Failed s4 \<Rightarrow> Failed s4
             | Completed s4 \<Rightarrow> Completed (flushAllReadySessions cfg env s4)) = Completed ?s4"
    by (subst c) simp
  then show ?thesis
    unfolding handleEachBatch_def Let_def assms(2) assms(3) by simp
qed

lemma offsets_available_example_env: "offsets_available example_env"
  by (simp add: example_env_def)


lemma updateMetrics_kafka_message:
  assumes "partitionAssignments s 0 = Some metrics" and "ts \<noteq> 0"
  shows "updateMetrics (kafka_message v off ts) s =
     s\<lparr>partitionAssignments := (partitionAssignments s)(0 \<mapsto>
           \<lparr>lastMessageTimestamp = Some ts, lastMessageOffset = Some off,
            lastKnownCommit = Some (case lastKnownCommit metrics of None \<Rightarrow> off | Some l \<Rightarrow> l)\<rparr>)\<rparr>"
  using assms by (cases metrics) (simp add: updateMetrics_def kafka_message_def split: option.splits)

lemma two_session_batch_parsed:
  assumes "partitionAssignments s 0 = Some metrics"
    and "known = (case lastKnownCommit metrics of None \<Rightarrow> off | Some l \<Rightarrow> l)"
  shows "parseMessages example_env (two_session_batch off off') s =
     All_parsed [recording ''a'' off, recording ''b'' off']
      (s\<lparr>partitionAssignments := (partitionAssignments s)(0 \<mapsto>
           \<lparr>lastMessageTimestamp = Some 1000, lastMessageOffset = Some off',
            lastKnownCommit = Some known\<rparr>)\<rparr>)"
proof -
  let ?m1 = "\<lparr>lastMessageTimestamp = Some 1000, lastMessageOffset = Some off,
            lastKnownCommit = Some known\<rparr>"
  let ?s1 = "s\<lparr>partitionAssignments := (partitionAssignments s)(0 \<mapsto> ?m1)\<rparr>"
  have u1: "updateMetrics (kafka_message ''envelope a'' off 1000) s = ?s1"
    unfolding assms(2) using assms(1) by (rule updateMetrics_kafka_message) simp
  have "partitionAssignments ?s1 0 = Some ?m1" by simp
  then have u2: "updateMetrics (kafka_message ''envelope b'' off' 1000) ?s1 =
     ?s1\<lparr>partitionAssignments := (partitionAssignments ?s1)(0 \<mapsto>
           \<lparr>lastMessageTimestamp = Some 1000, lastMessageOffset = Some off',
            lastKnownCommit = Some (case lastKnownCommit ?m1 of None \<Rightarrow> off' | Some l \<Rightarrow> l)\<rparr>)\<rparr>"
    by (rule updateMetrics_kafka_message) simp
  show ?thesis
    unfolding two_session_batch_def
    by (simp add: parse_envelope_a parse_envelope_b Let_def u1 u2 offsets_available_example_env)
qed

lemma two_session_batch_consumed:
  assumes "sessions s = []" and "offsetHighWaterMarker s (''snap'', 0) = Map.empty"
  shows "consumeAll example_cfg example_env [recording ''a'' off, recording ''b'' off'] s =
           s\<lparr>sessions := [(''7-a'', one_message_session ''a'' off),
                            (''7-b'', one_message_session ''b'' off')]\<rparr>"
  using assms by (simp add: consume_new_session)

lemma one_message_session_idle:
  assumes "partitionAssignments s 0 = Some metrics" and "lastMessageTimestamp metrics = Some 1000"
  shows "session_idle example_cfg s (one_message_session sid off)"
  using assms
  by (simp add: session_idle_def one_message_session_def buffer_is_old_def example_cfg_def
      isEmpty_def)

lemma commitAll_frame:
  "sessions (commitAll ms s) = sessions s"
  "batchConsumer (commitAll ms s) = batchConsumer s"
  by (induction ms arbitrary: s) (simp_all add: commitOffset_step)

lemma commitOffset_keeps_timestamp:
  assumes "partitionAssignments s p = Some metrics"
  shows "\<exists>metrics'. partitionAssignments (commitOffset topic q off s) p = Some metrics'
           \<and> lastMessageTimestamp metrics' = lastMessageTimestamp metrics"
proof (cases "highestOffsetToCommit topic q off s \<le> lastKnownCommit_or_0 s q")
  case True
  with assms show ?thesis by (simp add: commitOffset_step)
next
  case False
  with assms show ?thesis
    by (cases "q = p") (simp_all add: commitOffset_step split: option.splits)
qed

lemma commitAll_keeps_timestamp:
  assumes "partitionAssignments s p = Some metrics"
  shows "\<exists>metrics'. partitionAssignments (commitAll ms s) p = Some metrics'
           \<and> lastMessageTimestamp metrics' = lastMessageTimestamp metrics"
  using assms
proof (induction ms arbitrary: s metrics)
  case Nil
  then show ?case by simp
next
  case (Cons m ms)
  let ?s1 = "commitOffset (msg_topic m) (msg_partition m) (msg_offset m) s"
  from commitOffset_keeps_timestamp [OF Cons.prems]
  obtain m1 where m1: "partitionAssignments ?s1 p = Some m1"
    "lastMessageTimestamp m1 = lastMessageTimestamp metrics"
    by blast
  from Cons.IH [OF m1(1)] m1(2) show ?case by simp
qed

lemma two_session_batch_run:
  assumes "sessions s = []" and "offsetHighWaterMarker s (''snap'', 0) = Map.empty"
    and "partitionAssignments s 0 = Some metrics"
    and "known = (case lastKnownCommit metrics of None \<Rightarrow> off | Some l \<Rightarrow> l)"
    and "s2 = s\<lparr>partitionAssignments := (partitionAssignments s)(0 \<mapsto>
                 \<lparr>lastMessageTimestamp = Some 1000, lastMessageOffset = Some off',
                  lastKnownCommit = Some known\<rparr>),
               sessions := [(''7-a'', one_message_session ''a'' off),
                            (''7-b'', one_message_session ''b'' off')]\<rparr>"
  shows "handleEachBatch example_cfg example_env (two_session_batch off off') s =
           Completed (result_state (consumeBatch example_env
              [recording ''a'' off, recording ''b'' off']
              (commitAll (two_session_batch off off') s2)))"
proof -
  let ?S1 = "s\<lparr>partitionAssignments := (partitionAssignments s)(0 \<mapsto>
                 \<lparr>lastMessageTimestamp = Some 1000, lastMessageOffset = Some off',
                  lastKnownCommit = Some known\<rparr>)\<rparr>"
  let ?S3 = "commitAll (two_session_batch off off') s2"
  have p: "parseMessages example_env (two_session_batch off off') s =
             All_parsed [recording ''a'' off, recording ''b'' off'] ?S1"
    by (rule two_session_batch_parsed [OF assms(3,4)])
  have c: "consumeAll example_cfg example_env [recording ''a'' off, recording ''b'' off'] ?S1 = s2"
    unfolding assms(5) using assms(1,2) by (subst two_session_batch_consumed) simp_all
  have ss3: "sessions ?S3 = [(''7-a'', one_message_session ''a'' off),
                            (''7-b'', one_message_session ''b'' off')]"
    by (simp add: commitAll_frame assms(5))
  have "partitionAssignments s2 0 = Some \<lparr>lastMessageTimestamp = Some 1000,
          lastMessageOffset = Some off', lastKnownCommit = Some known\<rparr>"
    by (simp add: assms(5))
  from commitAll_keeps_timestamp [OF this, of "two_session_batch off off'"]
  obtain m3 where m3: "partitionAssignments ?S3 0 = Some m3" "lastMessageTimestamp m3 = Some 1000"
    by auto
  show ?thesis
  proof (rule handleEachBatch_idle_result [OF _ p])
    show "downstream_available example_env" by (simp add: example_env_def)
    show "?S3 = commitAll (two_session_batch off off')
                  (consumeAll example_cfg example_env [recording ''a'' off, recording ''b'' off'] ?S1)"
      by (simp only: c)
    show "distinct (map fst (sessions ?S3))" by (simp add: ss3)
    show "\<forall>e \<in> set (sessions ?S3). session_idle example_cfg ?S3 (snd e)"
      by (simp add: ss3 one_message_session_idle [OF m3])
  qed
qed

text \<open>While no live session manager of the topic-partition sits at offset 0, the loop of
  \<open>commitOffset\<close> does find the lowest un-flushed offset, and the offset to commit is at most
  the lowest offset of every live manager.\<close>

lemma blockingSession_finds_minimum:
  assumes "\<forall>sm \<in> set sms. sm_partition sm = p \<and> sm_topic sm = topic \<longrightarrow> getLowestOffset sm \<noteq> Some 0"
    and "\<forall>b. pb = Some b \<longrightarrow> (\<exists>l. getLowestOffset b = Some l \<and> 0 < l)"
  shows "(\<forall>b0 l0. pb = Some b0 \<and> getLowestOffset b0 = Some l0 \<longrightarrow>
            (\<exists>b lb. blockingSession topic p sms pb = Some b \<and> getLowestOffset b = Some lb \<and> lb \<le> l0))
       \<and> (\<forall>sm \<in> set sms. \<forall>l. sm_partition sm = p \<and> sm_topic sm = topic \<and> getLowestOffset sm = Some l \<longrightarrow>
            (\<exists>b lb. blockingSession topic p sms pb = Some b \<and> getLowestOffset b = Some lb \<and> lb \<le> l))"
  using assms
proof (induction sms arbitrary: pb)
  case Nil
  then show ?case by simp
next
  case (Cons sm sms)
  show ?case
  proof (cases "sm_partition sm = p \<and> sm_topic sm = topic")
    case False
    then have step: "blockingSession topic p (sm # sms) pb = blockingSession topic p sms pb"
      by auto
    from Cons.IH [of pb] Cons.prems False show ?thesis
      unfolding step by auto
  next
    case True
    show ?thesis
    proof (cases "getLowestOffset sm")
      case None
      with True have step: "blockingSession topic p (sm # sms) pb = blockingSession topic p sms pb"
        by simp
      from Cons.IH [of pb] Cons.prems None show ?thesis
        unfolding step by auto
    next
      case (Some l)
      with Cons.prems(1) True have lpos: "0 < l" by auto
      show ?thesis
      proof (cases pb)
        case None
        with True Some have step: "blockingSession topic p (sm # sms) pb
            = blockingSession topic p sms (Some sm)"
          by simp
        from Cons.IH [of "Some sm"] Cons.prems(1) Some lpos None show ?thesis
          unfolding step by auto
      next
        case (Some b)
        with Cons.prems(2) obtain lb where lb: "getLowestOffset b = Some lb" "0 < lb" by auto
        show ?thesis
        proof (cases "l < lb")
          case lt: True
          with True \<open>getLowestOffset sm = Some l\<close> Some lb
          have step: "blockingSession topic p (sm # sms) pb = blockingSession topic p sms (Some sm)"
            by simp
          from Cons.IH [of "Some sm"] Cons.prems(1) \<open>getLowestOffset sm = Some l\<close> lpos Some lb lt
          show ?thesis
            unfolding step by (auto intro: order_trans less_imp_le)
        next
          case ge: False
          with True \<open>getLowestOffset sm = Some l\<close> Some lb
          have step: "blockingSession topic p (sm # sms) pb = blockingSession topic p sms pb"
            by simp
          from Cons.IH [of pb] Cons.prems \<open>getLowestOffset sm = Some l\<close> Some lb ge
          show ?thesis
            unfolding step by auto
        qed
      qed
    qed
  qed
qed


lemma highestOffsetToCommit_at_most_positive_lowest:
  assumes "\<forall>e \<in> set (sessions s). sm_partition (snd e) = p \<and> sm_topic (snd e) = topic
             \<longrightarrow> getLowestOffset (snd e) \<noteq> Some 0"
    and "e \<in> set (sessions s)" and "sm_partition (snd e) = p" and "sm_topic (snd e) = topic"
    and "getLowestOffset (snd e) = Some l"
  shows "highestOffsetToCommit topic p off s \<le> l"
proof -
  have "\<forall>sm \<in> set (map snd (sessions s)). sm_partition sm = p \<and> sm_topic sm = topic
          \<longrightarrow> getLowestOffset sm \<noteq> Some 0"
    using assms(1) by auto
  from blockingSession_finds_minimum [OF this, of None]
  have "\<forall>sm \<in> set (map snd (sessions s)). \<forall>l. sm_partition sm = p \<and> sm_topic sm = topic
          \<and> getLowestOffset sm = Some l \<longrightarrow>
            (\<exists>b lb. blockingSession topic p (map snd (sessions s)) None = Some b
               \<and> getLowestOffset b = Some lb \<and> lb \<le> l)"
    by simp
  moreover have "snd e \<in> set (map snd (sessions s))" using assms(2) by simp
  ultimately obtain b lb where "blockingSession topic p (map snd (sessions s)) None = Some b"
    "getLowestOffset b = Some lb" "lb \<le> l"
    using assms(3,4,5) by blast
  then show ?thesis
    by (simp add: highestOffsetToCommit_def potentiallyBlockingOffset_def)
qed

text \<open>C1. The offset committed for a partition was to be at most the lowest un-flushed
  offset of every live session manager on it. On a freshly assigned partition whose first
  message, at offset 0, belongs to session \<open>a\<close> and whose second, at offset 1, to session \<open>b\<close>,
  both managers are live after the batch (lowest offsets 0 and 1), and the batch has committed
  offset 1 (the broker commit is 2): in the loop of \<open>commitOffset\<close> the lowest offset 0 of the
  blocking session is read through \<^verbatim>\<open>|| Infinity\<close>, so session \<open>b\<close> replaces session \<open>a\<close> as the
  blocking one.\<close>

theorem commit_passes_session_at_offset_zero:
  "map (\<lambda>e. (fst e, getLowestOffset (snd e)))
     (sessions (result_state
        (handleEachBatch example_cfg example_env (two_session_batch 0 1) assigned_ingester)))
     = [(''7-a'', Some 0), (''7-b'', Some 1)]
   \<and> commits (result_state
        (handleEachBatch example_cfg example_env (two_session_batch 0 1) assigned_ingester))
     = [(''snap'', 0, 2)]"
proof -
  let ?S2 = "assigned_ingester\<lparr>partitionAssignments := (partitionAssignments assigned_ingester)(0 \<mapsto>
                 \<lparr>lastMessageTimestamp = Some 1000, lastMessageOffset = Some 1,
                  lastKnownCommit = Some 0\<rparr>),
               sessions := [(''7-a'', one_message_session ''a'' 0),
                            (''7-b'', one_message_session ''b'' 1)]\<rparr>"
  have run: "handleEachBatch example_cfg example_env (two_session_batch 0 1) assigned_ingester =
           Completed (result_state (consumeBatch example_env
              [recording ''a'' 0, recording ''b'' 1] (commitAll (two_session_batch 0 1) ?S2)))"
    by (rule two_session_batch_run [where metrics = no_metrics and known = 0])
       (simp_all add: assigned_ingester_def no_metrics_def)
  have c3: "commits (commitAll (two_session_batch 0 1) ?S2) = [(''snap'', 0, 2)]"
    by (simp add: two_session_batch_def kafka_message_def commitOffset_def Let_def
        highestOffsetToCommit_def potentiallyBlockingOffset_def lastKnownCommit_or_0_def
        getLowestOffset_def isEmpty_def one_message_session_def assigned_ingester_def)
  show ?thesis
    unfolding run
    by (simp add: consumeBatch_frame commitAll_frame c3 del: consumeBatch.simps One_nat_def)
       (simp add: getLowestOffset_def isEmpty_def one_message_session_def)
qed

text \<open>C2. After a commit the lowest un-flushed offset of every live session manager was to be
  at least the last committed offset plus one. With partition 0 committed up to 99, a batch
  brings offset 100 for session \<open>a\<close> and offset 101 for session \<open>b\<close>; neither is flushed.
  \<open>commitOffset\<close> takes the blocking offset 100 itself as the offset to commit: the last known
  commit becomes 100 and the broker is told to resume at 101, while offset 100 is still only
  in the buffer of session \<open>a\<close>.\<close>

theorem commit_reaches_lowest_unflushed_offset:
  "map (\<lambda>e. (fst e, getLowestOffset (snd e)))
     (sessions (result_state
        (handleEachBatch example_cfg example_env (two_session_batch 100 101) caught_up_ingester)))
     = [(''7-a'', Some 100), (''7-b'', Some 101)]
   \<and> commits (result_state
        (handleEachBatch example_cfg example_env (two_session_batch 100 101) caught_up_ingester))
     = [(''snap'', 0, 100), (''snap'', 0, 101)]
   \<and> lastKnownCommit_or_0 (result_state
        (handleEachBatch example_cfg example_env (two_session_batch 100 101) caught_up_ingester)) 0
     = 100"
proof -
  let ?S2 = "caught_up_ingester\<lparr>partitionAssignments := (partitionAssignments caught_up_ingester)(0 \<mapsto>
                 \<lparr>lastMessageTimestamp = Some 1000, lastMessageOffset = Some 101,
                  lastKnownCommit = Some 99\<rparr>),
               sessions := [(''7-a'', one_message_session ''a'' 100),
                            (''7-b'', one_message_session ''b'' 101)]\<rparr>"
  have run: "handleEachBatch example_cfg example_env (two_session_batch 100 101) caught_up_ingester =
           Completed (result_state (consumeBatch example_env
              [recording ''a'' 100, recording ''b'' 101]
              (commitAll (two_session_batch 100 101) ?S2)))"
    by (rule two_session_batch_run
          [where metrics = "\<lparr>lastMessageTimestamp = Some 900, lastMessageOffset = Some 99,
                            lastKnownCommit = Some 99\<rparr>" and known = 99])
       (simp_all add: caught_up_ingester_def)
  have c3: "commits (commitAll (two_session_batch 100 101) ?S2) = [(''snap'', 0, 100), (''snap'', 0, 101)]"
    "lastKnownCommit_or_0 (commitAll (two_session_batch 100 101) ?S2) 0 = 100"
    by (simp_all add: two_session_batch_def kafka_message_def commitOffset_def Let_def
        highestOffsetToCommit_def potentiallyBlockingOffset_def lastKnownCommit_or_0_def
        getLowestOffset_def isEmpty_def one_message_session_def caught_up_ingester_def)
  have l: "lastKnownCommit_or_0 (result_state (consumeBatch example_env evs s)) p
             = lastKnownCommit_or_0 s p" for evs s p
    by (simp add: lastKnownCommit_or_0_def consumeBatch_frame)
  show ?thesis
    unfolding run
    by (simp add: consumeBatch_frame commitAll_frame c3 l del: consumeBatch.simps)
       (simp add: getLowestOffset_def isEmpty_def one_message_session_def)
qed

subsection \<open>A batch of invalid messages\<close>










text \<open>A batch in which the parser throws, or \<^verbatim>\<open>offsetsRefresher.get()\<close> is rejected, fails before
  the loop of commits: no commit is issued.\<close>

lemma raised_batch_fails:
  assumes "parseMessages env messages s = Raised f s1"
  shows "handleEachBatch cfg env messages s = Failed s1" and "commits s1 = commits s"
proof -
  show "handleEachBatch cfg env messages s = Failed s1"
    by (simp add: handleEachBatch_def assms)
  have "commits (loop_state (parseMessages env messages s)) = commits s"
    by (rule parseMessages_frame)
  then show "commits s1 = commits s" by (simp add: assms)
qed

lemma null_data_batch_fails:
  "handleEachBatch example_cfg example_env
     [kafka_message ''envelope with null data'' 100 1000] caught_up_ingester
     = Failed (updateMetrics (kafka_message ''envelope with null data'' 100 1000) caught_up_ingester)"
proof (rule raised_batch_fails(1))
  have "parseKafkaMessage example_env (kafka_message ''envelope with null data'' 100 1000)
          (getTeamFn example_env) = Thrown TypeError"
    by (simp add: parseKafkaMessage_def kafka_message_def example_env_def)
  then show "parseMessages example_env [kafka_message ''envelope with null data'' 100 1000]
               caught_up_ingester
             = Raised TypeError
                 (updateMetrics (kafka_message ''envelope with null data'' 100 1000) caught_up_ingester)"
    by (simp add: Let_def offsets_available_example_env)
qed




end
